theory Spec2Isabelle
  imports Main "HOL-Library.AList"
begin

section \<open>Python strings\<close>

text \<open>
  A Python \<^verbatim>\<open>str\<close> is a sequence of Unicode code points, so it is modelled as a list of
  natural numbers. \<open>ascii\<close> embeds an ASCII literal. The messages the program writes in
  Chinese are given by their code points.
\<close>

type_synonym pystr = "nat list"

definition ascii :: "string \<Rightarrow> pystr" where
  "ascii cs = map of_char cs"

text \<open>\<^verbatim>\<open>str.isspace\<close> for one code point: the characters \<^verbatim>\<open>str.strip()\<close> removes.\<close>

definition isspace :: "nat \<Rightarrow> bool" where
  "isspace c =
     ((9 \<le> c \<and> c \<le> 13) \<or> (28 \<le> c \<and> c \<le> 32) \<or> c = 133 \<or> c = 160 \<or> c = 5760
      \<or> (8192 \<le> c \<and> c \<le> 8202) \<or> c = 8232 \<or> c = 8233 \<or> c = 8239 \<or> c = 8287
      \<or> c = 12288)"

definition strip :: "pystr \<Rightarrow> pystr" where
  "strip s = rev (dropWhile isspace (rev (dropWhile isspace s)))"

definition startswith :: "pystr \<Rightarrow> pystr \<Rightarrow> bool" where
  "startswith s p = (take (length p) s = p)"

text \<open>\<^verbatim>\<open>p in s\<close> for strings.\<close>

fun str_in :: "pystr \<Rightarrow> pystr \<Rightarrow> bool" where
  "str_in p [] = (p = [])"
| "str_in p (c # cs) = (startswith (c # cs) p \<or> str_in p cs)"

text \<open>
  \<^verbatim>\<open>s.replace(old, new)\<close>, for a non-empty \<open>old\<close> (the only use the program makes of it):
  the occurrences are replaced from the left, without overlap.
\<close>

function replace :: "pystr \<Rightarrow> pystr \<Rightarrow> pystr \<Rightarrow> pystr" where
  "replace old new [] = []"
| "replace old new (c # cs) =
     (if old \<noteq> [] \<and> startswith (c # cs) old
      then new @ replace old new (drop (length old) (c # cs))
      else c # replace old new cs)"
  by pat_completeness auto
termination
  by (relation "measure (\<lambda>(old, new, s). length s)") (auto simp: neq_Nil_conv)

text \<open>\<^verbatim>\<open>sep.join(xs)\<close>.\<close>

fun join :: "pystr \<Rightarrow> pystr list \<Rightarrow> pystr" where
  "join sep [] = []"
| "join sep [x] = x"
| "join sep (x # y # ys) = x @ sep @ join sep (y # ys)"

text \<open>\<^verbatim>\<open>str(n)\<close> for a non-negative integer.\<close>

fun str_of_nat :: "nat \<Rightarrow> pystr" where
  "str_of_nat n = (if n < 10 then [48 + n] else str_of_nat (n div 10) @ [48 + n mod 10])"

declare str_of_nat.simps [simp del]

text \<open>
  \<^verbatim>\<open>str.lower()\<close> restricted to what the program asks of it: the ASCII capitals are
  folded; no other code point lowers to an ASCII letter that the program looks for
  (\<open>n\<close>, \<open>e\<close>, \<open>x\<close>, \<open>t\<close>, \<open>h\<close>, \<open>p\<close>, \<open>s\<close>, \<open>d\<close>, \<open>f\<close>).
\<close>

definition lower :: "pystr \<Rightarrow> pystr" where
  "lower s = map (\<lambda>c. if 65 \<le> c \<and> c \<le> 90 then c + 32 else c) s"

section \<open>The parsed page (BeautifulSoup)\<close>

text \<open>
  A parsed page is a tree of tags and strings. A tag carries its name, the tokens of its
  multi-valued \<^verbatim>\<open>class\<close> attribute and its single-valued attributes (a dict: the first
  binding of a key is the one \<open>map_of\<close> reads). The soup object itself is the root tag.
\<close>

datatype node =
    Tag (tag_name: pystr) (tag_classes: "pystr list") (tag_attrs: "(pystr \<times> pystr) list")
        (tag_contents: "node list")
  | NavigableString pystr

text \<open>The descendants of a node in document order, as \<^verbatim>\<open>find_all\<close> walks them.\<close>

fun descendants :: "node \<Rightarrow> node list" where
  "descendants (Tag n cl at cs) = concat (map (\<lambda>c. c # descendants c) cs)"
| "descendants (NavigableString s) = []"

text \<open>
  \<^verbatim>\<open>find_all(names, ...)\<close>: the descendant tags whose name is one of \<open>names\<close> and that pass
  the attribute filter \<open>P\<close>; \<^verbatim>\<open>find\<close> is its first element or \<^verbatim>\<open>None\<close>.
\<close>

definition find_all :: "node \<Rightarrow> pystr list \<Rightarrow> (node \<Rightarrow> bool) \<Rightarrow> node list" where
  "find_all root names P =
     filter (\<lambda>t. case t of Tag n cl at cs \<Rightarrow> n \<in> set names \<and> P t | NavigableString s \<Rightarrow> False)
       (descendants root)"

definition find :: "node \<Rightarrow> pystr list \<Rightarrow> (node \<Rightarrow> bool) \<Rightarrow> node option" where
  "find root names P = (case find_all root names P of [] \<Rightarrow> None | t # ts \<Rightarrow> Some t)"

text \<open>
  The attribute filters the program uses. \<^verbatim>\<open>class_="c"\<close> holds when one class token is
  \<open>c\<close> or the whole attribute, its tokens joined by a blank, is \<open>c\<close>; a list of classes
  holds when one of them does. \<^verbatim>\<open>id="v"\<close> and \<^verbatim>\<open>title="v"\<close> compare a single-valued
  attribute, \<^verbatim>\<open>href=True\<close> asks for its presence.
\<close>

definition any_tag :: "node \<Rightarrow> bool" where
  "any_tag t = True"

definition has_class :: "pystr \<Rightarrow> node \<Rightarrow> bool" where
  "has_class c t =
     (case t of Tag n cl at cs \<Rightarrow> c \<in> set cl \<or> (cl \<noteq> [] \<and> join [32] cl = c)
      | NavigableString s \<Rightarrow> False)"

definition has_class_in :: "pystr list \<Rightarrow> node \<Rightarrow> bool" where
  "has_class_in cs t = list_ex (\<lambda>c. has_class c t) cs"

definition get_attr :: "node \<Rightarrow> pystr \<Rightarrow> pystr option" where
  "get_attr t k = (case t of Tag n cl at cs \<Rightarrow> map_of at k | NavigableString s \<Rightarrow> None)"

definition attr_is :: "pystr \<Rightarrow> pystr \<Rightarrow> node \<Rightarrow> bool" where
  "attr_is k v t = (get_attr t k = Some v)"

definition has_attr :: "pystr \<Rightarrow> node \<Rightarrow> bool" where
  "has_attr k t = (get_attr t k \<noteq> None)"

text \<open>
  The strings below a node in document order; \<^verbatim>\<open>get_text()\<close> concatenates them,
  \<^verbatim>\<open>get_text(strip=True)\<close> strips each one first and drops those left empty.
\<close>

fun all_strings :: "node \<Rightarrow> pystr list" where
  "all_strings (Tag n cl at cs) = concat (map all_strings cs)"
| "all_strings (NavigableString s) = [s]"

definition get_text :: "node \<Rightarrow> pystr" where
  "get_text t = concat (all_strings t)"

definition get_text_strip :: "node \<Rightarrow> pystr" where
  "get_text_strip t = concat (filter (\<lambda>s. s \<noteq> []) (map strip (all_strings t)))"

text \<open>
  \<^verbatim>\<open>tag.decompose()\<close> for every tag of a \<^verbatim>\<open>find_all\<close> result: each matching descendant
  leaves the tree together with what is below it.
\<close>

fun decompose_all :: "(node \<Rightarrow> bool) \<Rightarrow> node \<Rightarrow> node" where
  "decompose_all P (Tag n cl at cs) =
     Tag n cl at (map (decompose_all P) (filter (\<lambda>c. \<not> P c) cs))"
| "decompose_all P (NavigableString s) = NavigableString s"

section \<open>Field extraction\<close>

definition NO_ABSTRACT :: pystr where
  "NO_ABSTRACT = [26410, 33719, 21462, 21040, 25688, 35201]"

definition NO_INTRODUCTION :: pystr where
  "NO_INTRODUCTION = [26410, 33719, 21462, 21040, 24341, 35328]"

text \<open>\<^verbatim>\<open>get_text(strip=False).strip().replace("\xa0", " ")\<close>\<close>

definition clean_text :: "node \<Rightarrow> pystr" where
  "clean_text t = replace [160] [32] (strip (get_text t))"

definition extract_abstract :: "node \<Rightarrow> pystr" where
  "extract_abstract soup =
     (case find soup [ascii ''div''] (has_class (ascii ''ltx_abstract'')) of
        None \<Rightarrow> NO_ABSTRACT
      | Some abstract_container \<Rightarrow>
          (case find abstract_container [ascii ''p''] (has_class (ascii ''ltx_p'')) of
             None \<Rightarrow> NO_ABSTRACT
           | Some abstract_p \<Rightarrow> clean_text abstract_p))"

text \<open>
  An exception that leaves a function. \<^verbatim>\<open>extract_introduction\<close> calls \<^verbatim>\<open>.find\<close> on the
  result of a \<^verbatim>\<open>find\<close> without a test: on \<^verbatim>\<open>None\<close> that is an \<^verbatim>\<open>AttributeError\<close>.
  Indexing the archive with a date it does not hold is a \<^verbatim>\<open>KeyError\<close>. At the start
  of a run, \<^verbatim>\<open>.values()\<close> on a decoded value that is no object is an
  \<^verbatim>\<open>AttributeError\<close>, and \<^verbatim>\<open>len\<close> of a value that has no length is a \<^verbatim>\<open>TypeError\<close>.
\<close>

datatype exn = AttributeError | KeyError | TypeError

text \<open>The first loop: the paragraphs of the section, appended to \<open>contents\<close>.\<close>

fun para_loop :: "node list \<Rightarrow> pystr list \<Rightarrow> pystr list" where
  "para_loop [] contents = contents"
| "para_loop (para_div # rest) contents =
     (case find para_div [ascii ''p''] (has_class (ascii ''ltx_p'')) of
        None \<Rightarrow> para_loop rest contents
      | Some para_p \<Rightarrow> para_loop rest (contents @ [clean_text para_p]))"

text \<open>The inner loop over the items of one list, counted from \<open>idx\<close>.\<close>

fun item_loop :: "nat \<Rightarrow> node list \<Rightarrow> pystr list \<Rightarrow> exn + pystr list" where
  "item_loop idx [] contents = Inr contents"
| "item_loop idx (li # rest) contents =
     (case find li [ascii ''div''] (has_class (ascii ''ltx_para'')) of
        None \<Rightarrow> Inl AttributeError
      | Some li_div \<Rightarrow>
          (case find li_div [ascii ''p''] (has_class (ascii ''ltx_p'')) of
             None \<Rightarrow> item_loop (idx + 1) rest contents
           | Some li_p \<Rightarrow>
               item_loop (idx + 1) rest
                 (contents @ [str_of_nat idx @ ascii ''. '' @ clean_text li_p])))"

text \<open>The outer loop over the lists of the section.\<close>

fun list_loop :: "node list \<Rightarrow> pystr list \<Rightarrow> exn + pystr list" where
  "list_loop [] contents = Inr contents"
| "list_loop (ul # rest) contents =
     (case item_loop 1 (find_all ul [ascii ''li''] (has_class (ascii ''ltx_item''))) contents of
        Inl e \<Rightarrow> Inl e
      | Inr contents' \<Rightarrow> list_loop rest contents')"

text \<open>
  The pagination and the hidden buttons are taken out of the section first:
  \<^verbatim>\<open>find_all(["div", "button"], class_=["ltx_pagination", "sr-only button"])\<close>, each
  decomposed.
\<close>

definition is_navigation :: "node \<Rightarrow> bool" where
  "is_navigation t =
     (case t of
        Tag n cl at cs \<Rightarrow>
          n \<in> set [ascii ''div'', ascii ''button'']
          \<and> has_class_in [ascii ''ltx_pagination'', ascii ''sr-only button''] t
      | NavigableString s \<Rightarrow> False)"

definition extract_introduction :: "node \<Rightarrow> exn + pystr" where
  "extract_introduction soup =
     (case find soup [ascii ''section''] (attr_is (ascii ''id'') (ascii ''S1'')) of
        None \<Rightarrow> Inr NO_INTRODUCTION
      | Some found \<Rightarrow>
          (let intro_section = decompose_all is_navigation found;
               contents =
                 para_loop (find_all intro_section [ascii ''div''] (has_class (ascii ''ltx_para''))) []
           in case list_loop
                     (find_all intro_section [ascii ''ul''] (has_class (ascii ''ltx_itemize'')))
                     contents of
                Inl e \<Rightarrow> Inl e
              | Inr contents' \<Rightarrow>
                  Inr (if contents' \<noteq> [] then join (ascii [CHR 0x0A, CHR 0x0A]) contents'
                       else NO_INTRODUCTION)))"

section \<open>Metadata of a listing item\<close>

definition ARXIV :: pystr where
  "ARXIV = ascii ''https://arxiv.org''"

text \<open>\<^verbatim>\<open>f"https://arxiv.org{url}" if url.startswith("/") else url\<close>\<close>

definition absolute :: "pystr \<Rightarrow> pystr" where
  "absolute url = (if startswith url (ascii ''/'') then ARXIV @ url else url)"

text \<open>The \<^verbatim>\<open>href\<close> values of the links below a node (\<^verbatim>\<open>find_all("a", href=True)\<close>).\<close>

definition a_hrefs :: "node \<Rightarrow> pystr list" where
  "a_hrefs root =
     List.map_filter (\<lambda>t. get_attr t (ascii ''href''))
       (find_all root [ascii ''a''] (has_attr (ascii ''href'')))"

text \<open>
  \<^verbatim>\<open>URL_PATTERN.sub("", s)\<close> with \<^verbatim>\<open>https?://\S+|www\.\S+\<close>: a match starts where one of
  the three prefixes is followed by a character that is no space, and it runs to the next
  space, the prefixes holding no space themselves.
\<close>

definition url_at :: "pystr \<Rightarrow> bool" where
  "url_at s =
     list_ex
       (\<lambda>p. startswith s p
            \<and> (case drop (length p) s of [] \<Rightarrow> False | x # xs \<Rightarrow> \<not> isspace x))
       [ascii ''http://'', ascii ''https://'', ascii ''www.'']"

function url_sub :: "pystr \<Rightarrow> pystr" where
  "url_sub [] = []"
| "url_sub (c # cs) =
     (if url_at (c # cs) then url_sub (dropWhile (\<lambda>x. \<not> isspace x) cs) else c # url_sub cs)"
  by pat_completeness auto
termination
  by (relation "measure length") (auto simp: le_imp_less_Suc length_dropWhile_le)

text \<open>\<^verbatim>\<open>re.sub(r'[,; ]+$', '', s)\<close> on a stripped string: the trailing run goes.\<close>

definition strip_trailing_punct :: "pystr \<Rightarrow> pystr" where
  "strip_trailing_punct s = rev (dropWhile (\<lambda>c. c = 44 \<or> c = 59 \<or> c = 32) (rev s))"

text \<open>
  The code links are collected in a Python set, whose iteration order the language leaves
  open: \<open>set_order\<close> is the order in which the interpreter walks the set that received
  the given insertions.
\<close>

definition process_comment_and_code ::
  "(pystr list \<Rightarrow> pystr list) \<Rightarrow> node option \<Rightarrow> pystr \<times> pystr" where
  "process_comment_and_code set_order comment_tag =
     (case comment_tag of
        None \<Rightarrow> ([], [])
      | Some tag \<Rightarrow>
          (let urls =
                 map absolute
                   (filter
                      (\<lambda>url. startswith url (ascii ''/'') \<or> startswith url (ascii ''http://'')
                             \<or> startswith url (ascii ''https://''))
                      (map strip (a_hrefs tag)));
               code = join (ascii '', '') (set_order urls);
               raw_text = strip (replace (ascii ''Comments:'') [] (get_text_strip tag));
               clean_comment = strip_trailing_punct (strip (url_sub raw_text))
           in (clean_comment, code)))"

text \<open>The loop of \<^verbatim>\<open>extract_pdf_link\<close> over the stripped links of the item.\<close>

fun pdf_loop :: "pystr list \<Rightarrow> pystr" where
  "pdf_loop [] = []"
| "pdf_loop (href # rest) =
     (if str_in (ascii ''pdf'') (lower href)
      then (if startswith href (ascii ''/'') then ARXIV @ href
            else if startswith href (ascii ''http://'') \<or> startswith href (ascii ''https://'')
            then href
            else pdf_loop rest)
      else pdf_loop rest)"

definition extract_pdf_link :: "node \<Rightarrow> pystr" where
  "extract_pdf_link dt_tag = pdf_loop (map strip (a_hrefs dt_tag))"

definition UNKNOWN_TITLE :: pystr where
  "UNKNOWN_TITLE = [26410, 30693, 26631, 39064]"

definition UNKNOWN_AUTHORS :: pystr where
  "UNKNOWN_AUTHORS = [26410, 30693, 20316, 32773]"

definition UNKNOWN_SUBJECTS :: pystr where
  "UNKNOWN_SUBJECTS = [26410, 30693, 23398, 31185]"

text \<open>
  \<^verbatim>\<open>tag.get_text(strip=True).replace(label, "").strip() if tag else default\<close>, for the tag
  of class \<open>cls\<close> below the metadata block.
\<close>

definition meta_field :: "node \<Rightarrow> pystr \<Rightarrow> pystr \<Rightarrow> pystr \<Rightarrow> pystr" where
  "meta_field meta_div cls label dflt =
     (case find meta_div [ascii ''div''] (has_class cls) of
        None \<Rightarrow> dflt
      | Some tag \<Rightarrow> strip (replace label [] (get_text_strip tag)))"

text \<open>
  The link of a listing item with the given \<^verbatim>\<open>title\<close> attribute, made absolute;
  \<^verbatim>\<open>None\<close> when the tag or its \<^verbatim>\<open>href\<close> is missing.
\<close>

definition titled_link :: "node \<Rightarrow> pystr \<Rightarrow> pystr option" where
  "titled_link dt ttl =
     (case find dt [ascii ''a''] (attr_is (ascii ''title'') ttl) of
        None \<Rightarrow> None
      | Some link_tag \<Rightarrow>
          (case get_attr link_tag (ascii ''href'') of
             None \<Rightarrow> None
           | Some href \<Rightarrow> Some (absolute (strip href))))"

section \<open>The summarizer call\<close>

text \<open>
  What the HTTPS exchange with the summarization service gives: an exception of the
  connection (its text), or a status with the decoded body.
\<close>

datatype http_reply = ConnectionFailed pystr | Reply nat pystr

record llm_result =
  summary :: pystr
  score :: int
  error :: pystr

definition SUMMARY_FAILED :: pystr where
  "SUMMARY_FAILED = [22823, 27169, 22411, 24635, 32467, 22833, 36133]"

definition STATUS_MSG :: pystr where
  "STATUS_MSG = [65, 80, 73, 32, 29366, 24577, 30721, 24322, 24120, 65306]"

definition RESPONSE_MSG :: pystr where
  "RESPONSE_MSG = [65292, 21709, 24212, 65306]"

definition SCORE_PREFIX :: pystr where
  "SCORE_PREFIX = [20998, 25968, 65306]"

definition SCORE_SUFFIX :: nat where
  "SCORE_SUFFIX = 20998"

text \<open>
  \<^verbatim>\<open>LLM_SCORE_PATTERN\<close> is \<open>SCORE_PREFIX (\d+) SCORE_SUFFIX\<close>. \<open>dec\<close> is the decimal
  value Unicode gives a code point, if any: \<^verbatim>\<open>\d\<close> matches the code points that have one,
  and \<^verbatim>\<open>int\<close> reads them. \<open>digits_then_suffix\<close> is the greedy \<^verbatim>\<open>\d*\<close> followed by the
  suffix, giving up digits from the right while the suffix does not follow.
\<close>

definition isdigit :: "(nat \<Rightarrow> nat option) \<Rightarrow> nat \<Rightarrow> bool" where
  "isdigit dec c = (dec c \<noteq> None)"

fun digits_then_suffix :: "(nat \<Rightarrow> nat option) \<Rightarrow> pystr \<Rightarrow> pystr option" where
  "digits_then_suffix dec [] = None"
| "digits_then_suffix dec (c # cs) =
     (case (if isdigit dec c then digits_then_suffix dec cs else None) of
        Some ds \<Rightarrow> Some (c # ds)
      | None \<Rightarrow> if c = SCORE_SUFFIX then Some [] else None)"

definition score_match_at :: "(nat \<Rightarrow> nat option) \<Rightarrow> pystr \<Rightarrow> pystr option" where
  "score_match_at dec s =
     (if startswith s SCORE_PREFIX
      then (case digits_then_suffix dec (drop (length SCORE_PREFIX) s) of
              None \<Rightarrow> None
            | Some ds \<Rightarrow> if ds \<noteq> [] then Some ds else None)
      else None)"

text \<open>\<^verbatim>\<open>LLM_SCORE_PATTERN.search(s)\<close>: the match at the leftmost position; its group 1.\<close>

fun score_search :: "(nat \<Rightarrow> nat option) \<Rightarrow> pystr \<Rightarrow> pystr option" where
  "score_search dec [] = None"
| "score_search dec (c # cs) =
     (case score_match_at dec (c # cs) of
        Some ds \<Rightarrow> Some ds
      | None \<Rightarrow> score_search dec cs)"

text \<open>\<^verbatim>\<open>int(ds)\<close> on a string of decimal digits.\<close>

definition py_int :: "(nat \<Rightarrow> nat option) \<Rightarrow> pystr \<Rightarrow> int" where
  "py_int dec ds = foldl (\<lambda>acc c. 10 * acc + (case dec c of Some v \<Rightarrow> int v | None \<Rightarrow> 0)) 0 ds"

section \<open>The world outside the program\<close>

record paper =
  crawl_datetime :: pystr
  title :: pystr
  authors :: pystr
  subjects :: pystr
  comment :: pystr
  pdf_link :: pystr
  code :: pystr
  arxiv_abs_link :: pystr
  arxiv_html_link :: pystr
  abstract :: pystr
  introduction :: pystr
  llm_summary :: pystr
  llm_score :: int
  llm_error :: pystr

text \<open>
  \<^verbatim>\<open>all_papers_global\<close>: a dict from the date to the papers of that date, in insertion
  order. The entries of the archive file are taken to have the shape the program writes
  (the annotation \<^verbatim>\<open>Dict[str, List[Dict]]\<close>).
\<close>

type_synonym archive = "(pystr \<times> paper list) list"

text \<open>
  Everything the run reads from outside, fixed for the run:
  \<^item> \<open>http_get\<close>: the parsed page a GET of the URL gives, \<^verbatim>\<open>None\<close> when the request fails
    or the status is an error;
  \<^item> \<open>llm_post\<close>: the reply to the request built from title, abstract and introduction;
  \<^item> \<open>json_content\<close>: \<^verbatim>\<open>json.loads(body)["choices"][0]["message"]["content"]\<close>, or the text
    of the exception it raises;
  \<^item> \<open>todecimal\<close>: the decimal value of a code point; \<open>int_refuses\<close>: the text of the
    \<^verbatim>\<open>ValueError\<close> with which \<^verbatim>\<open>int\<close> refuses a digit string (the interpreter's limit on
    its length), if it does;
  \<^item> \<open>set_order\<close>: the iteration order of a set of strings;
  \<^item> \<open>date_today\<close> and \<open>datetime_now\<close>: the clock, the latter when the page of the
    given number is processed;
  \<^item> \<open>json_dump_error\<close>: the text of the exception writing the archive file raises, if it
    does; \<open>render_error\<close>: the same for \<^verbatim>\<open>json_to_markdown\<close>.
\<close>

record world =
  http_get :: "pystr \<Rightarrow> node option"
  llm_post :: "pystr \<Rightarrow> pystr \<Rightarrow> pystr \<Rightarrow> http_reply"
  json_content :: "pystr \<Rightarrow> pystr + pystr"
  todecimal :: "nat \<Rightarrow> nat option"
  int_refuses :: "pystr \<Rightarrow> pystr option"
  set_order :: "pystr list \<Rightarrow> pystr list"
  date_today :: pystr
  datetime_now :: "nat \<Rightarrow> pystr"
  json_dump_error :: "archive \<Rightarrow> pystr option"
  render_error :: "archive \<Rightarrow> pystr option"

text \<open>
  \<^verbatim>\<open>requests.get\<close> raises (\<^verbatim>\<open>MissingSchema\<close>, \<^verbatim>\<open>InvalidSchema\<close>) before anything is sent
  unless the URL, leading blanks apart, starts with \<^verbatim>\<open>http://\<close> or \<^verbatim>\<open>https://\<close> in any
  case; \<^verbatim>\<open>get_arxiv_soup\<close> turns every exception into \<^verbatim>\<open>None\<close>.
\<close>

definition requests_can_send :: "pystr \<Rightarrow> bool" where
  "requests_can_send url =
     (startswith (lower (dropWhile isspace url)) (ascii ''http://'')
      \<or> startswith (lower (dropWhile isspace url)) (ascii ''https://''))"

definition get_arxiv_soup :: "world \<Rightarrow> pystr \<Rightarrow> node option" where
  "get_arxiv_soup w url = (if requests_can_send url then http_get w url else None)"

text \<open>
  The \<^verbatim>\<open>try\<close> block of \<^verbatim>\<open>call_llm_for_summary\<close>: \<open>Inl\<close> carries \<^verbatim>\<open>str(e)\<close> of the
  exception that leaves it.
\<close>

definition llm_try :: "world \<Rightarrow> pystr \<Rightarrow> pystr \<Rightarrow> pystr \<Rightarrow> pystr + llm_result" where
  "llm_try w ttl abstr intro =
     (case llm_post w ttl abstr intro of
        ConnectionFailed msg \<Rightarrow> Inl msg
      | Reply status body \<Rightarrow>
          if status \<noteq> 200 then Inl (STATUS_MSG @ str_of_nat status @ RESPONSE_MSG @ body)
          else (case json_content w body of
                  Inl msg \<Rightarrow> Inl msg
                | Inr content \<Rightarrow>
                    (let stripped = strip content in
                     case score_search (todecimal w) stripped of
                       None \<Rightarrow> Inr \<lparr>summary = stripped, score = 0, error = []\<rparr>
                     | Some ds \<Rightarrow>
                         (case int_refuses w ds of
                            Some msg \<Rightarrow> Inl msg
                          | None \<Rightarrow>
                              Inr \<lparr>summary = stripped,
                                   score = (if 1 \<le> py_int (todecimal w) ds
                                               \<and> py_int (todecimal w) ds \<le> 5
                                            then py_int (todecimal w) ds else 0),
                                   error = []\<rparr>))))"

definition call_llm_for_summary :: "world \<Rightarrow> pystr \<Rightarrow> pystr \<Rightarrow> pystr \<Rightarrow> llm_result" where
  "call_llm_for_summary w ttl abstr intro =
     (case llm_try w ttl abstr intro of
        Inr result \<Rightarrow> result
      | Inl error_msg \<Rightarrow> \<lparr>summary = SUMMARY_FAILED, score = 0, error = error_msg\<rparr>)"

section \<open>The archive and the trace of a run\<close>

text \<open>The duplicate check: two nested loops, each left at the first hit.\<close>

fun bucket_has :: "paper list \<Rightarrow> pystr \<Rightarrow> bool" where
  "bucket_has [] html_link = False"
| "bucket_has (p # papers) html_link =
     (if arxiv_html_link p = html_link then True else bucket_has papers html_link)"

fun is_duplicate :: "archive \<Rightarrow> pystr \<Rightarrow> bool" where
  "is_duplicate [] html_link = False"
| "is_duplicate ((d, papers) # rest) html_link =
     (if bucket_has papers html_link then True else is_duplicate rest html_link)"

text \<open>\<^verbatim>\<open>if current_date not in all_papers_global: all_papers_global[current_date] = []\<close>\<close>

definition ensure_date :: "pystr \<Rightarrow> archive \<Rightarrow> archive" where
  "ensure_date d A = (if map_of A d = None then A @ [(d, [])] else A)"

text \<open>\<^verbatim>\<open>all_papers_global[current_date].append(paper_data)\<close>\<close>

fun append_paper :: "pystr \<Rightarrow> paper \<Rightarrow> archive \<Rightarrow> exn + archive" where
  "append_paper d p [] = Inl KeyError"
| "append_paper d p ((k, papers) # rest) =
     (if k = d then Inr ((k, papers @ [p]) # rest)
      else (case append_paper d p rest of
              Inl e \<Rightarrow> Inl e
            | Inr rest' \<Rightarrow> Inr ((k, papers) # rest')))"

text \<open>
  What a run does that can be seen from outside: the lines it logs (one constructor for
  each logging call of the crawl function and of the signal handler, with the values the
  line prints), a complete write of the archive file, and a call of the renderer
  \<^verbatim>\<open>json_to_markdown\<close>. The lines the helper functions log are left out.
\<close>

datatype level = INFO | WARNING | ERROR

datatype message =
    LoadedHistory nat
  | NoHistory
  | LoadFailed pystr
  | MaxPagesReached "int option"
  | PageStart nat pystr
  | ListFetchFailed nat
  | NoArticles nat
  | Mismatch nat nat
  | Processing nat nat nat
  | NoHtmlLink
  | AlreadyCrawled pystr
  | DetailFetchFailed pystr
  | NoMeta pystr
  | Completed nat nat pystr
  | PageSaved nat
  | PageSaveFailed nat pystr
  | NoNextPage
  | Interrupted
  | InterruptSaved nat
  | NothingToSave
  | InterruptSaveFailed pystr

datatype event = Log level message | JsonDump archive | RenderReport

record state =
  all_papers_global :: archive
  trace :: "event list"

definition emit :: "event \<Rightarrow> state \<Rightarrow> state" where
  "emit e s = s\<lparr>trace := trace s @ [e]\<rparr>"

section \<open>Loading the archive\<close>

text \<open>
  What the start of a run finds in the archive file:
  \<^item> \<open>FileNotFound\<close>: \<^verbatim>\<open>open\<close> raises \<^verbatim>\<open>FileNotFoundError\<close>;
  \<^item> \<open>ReadFailed\<close>: \<^verbatim>\<open>open\<close> or \<^verbatim>\<open>json.load\<close> raises another exception (its text);
  \<^item> \<open>NoLength\<close>: the file decodes to null, a boolean or a number, and \<^verbatim>\<open>len\<close> raises
    a \<^verbatim>\<open>TypeError\<close> (its text) inside the \<^verbatim>\<open>try\<close> block;
  \<^item> \<open>Sequence\<close>: the file decodes to a string or an array, of that length;
  \<^item> \<open>Ragged\<close>: the file decodes to an object, of that many keys, one of whose values
    is null, a boolean or a number;
  \<^item> \<open>Parsed\<close>: the file decodes to an object whose values are arrays of entries, an
    archive.

  An object whose values all have a length, without all of them being arrays of entries,
  has no constructor: lines 359 to 377 treat it like an archive, and what a later scan
  for a duplicate does with it depends on the items of the listing.
\<close>

datatype read_result =
    FileNotFound
  | ReadFailed pystr
  | NoLength pystr
  | Sequence nat
  | Ragged nat
  | Parsed archive

text \<open>
  Lines 359 to 371: the \<^verbatim>\<open>try\<close> block that loads the archive, and the count of the
  entries after it, which is outside the \<^verbatim>\<open>try\<close> block. On a string or an array
  \<^verbatim>\<open>all_papers_global.values()\<close> raises, and on an object with a value without
  length \<^verbatim>\<open>len(papers)\<close> does: \<open>Inl\<close> is that exception, with the log so far (the
  memory of the program then holds the decoded value, which is no archive).
\<close>

definition load_history :: "read_result \<Rightarrow> (exn \<times> event list) + state" where
  "load_history file =
     (case file of
        Parsed A \<Rightarrow>
          Inr \<lparr>all_papers_global = A, trace = [Log INFO (LoadedHistory (length A))]\<rparr>
      | FileNotFound \<Rightarrow> Inr \<lparr>all_papers_global = [], trace = [Log INFO NoHistory]\<rparr>
      | ReadFailed msg \<Rightarrow>
          Inr \<lparr>all_papers_global = [], trace = [Log WARNING (LoadFailed msg)]\<rparr>
      | NoLength msg \<Rightarrow>
          Inr \<lparr>all_papers_global = [], trace = [Log WARNING (LoadFailed msg)]\<rparr>
      | Sequence n \<Rightarrow> Inl (AttributeError, [Log INFO (LoadedHistory n)])
      | Ragged n \<Rightarrow> Inl (TypeError, [Log INFO (LoadedHistory n)]))"

section \<open>The crawl loop\<close>

definition PAPERS_PER_PAGE :: nat where
  "PAPERS_PER_PAGE = 100"

text \<open>Steps 3.2 and 3.4 to 3.7 of the loop body: the fields of the new entry.\<close>

definition assemble ::
  "world \<Rightarrow> pystr \<Rightarrow> node \<Rightarrow> node \<Rightarrow> pystr \<Rightarrow> node \<Rightarrow> pystr \<Rightarrow> paper" where
  "assemble w crawl_dt dt meta_div html_link paper_soup intro =
     (let ttl = meta_field meta_div (ascii ''list-title'') (ascii ''Title:'') UNKNOWN_TITLE;
          auth = meta_field meta_div (ascii ''list-authors'') (ascii ''Authors:'') UNKNOWN_AUTHORS;
          subj =
            meta_field meta_div (ascii ''list-subjects'') (ascii ''Subjects:'') UNKNOWN_SUBJECTS;
          cc = process_comment_and_code (set_order w)
                 (find meta_div [ascii ''div''] (has_class (ascii ''list-comments'')));
          abs_link = (case titled_link dt (ascii ''Abstract'') of None \<Rightarrow> [] | Some l \<Rightarrow> l);
          abstr = extract_abstract paper_soup;
          llm = call_llm_for_summary w ttl abstr intro
      in \<lparr>crawl_datetime = crawl_dt,
          title = ttl,
          authors = auth,
          subjects = subj,
          comment = fst cc,
          pdf_link = extract_pdf_link dt,
          code = snd cc,
          arxiv_abs_link = abs_link,
          arxiv_html_link = html_link,
          abstract = abstr,
          introduction = intro,
          llm_summary = summary llm,
          llm_score = score llm,
          llm_error = error llm\<rparr>)"

text \<open>
  The body of the loop over the items of a page. \<open>Inl\<close> carries an exception that
  leaves the loop together with the state it leaves behind.
\<close>

definition process_item ::
  "world \<Rightarrow> pystr \<Rightarrow> pystr \<Rightarrow> nat \<Rightarrow> nat \<Rightarrow> nat \<Rightarrow> node \<Rightarrow> node \<Rightarrow> state
   \<Rightarrow> (exn \<times> state) + state" where
  "process_item w current_date crawl_dt page n_items idx dt dd s0 =
     (let s = emit (Log INFO (Processing page idx n_items)) s0 in
      case titled_link dt (ascii ''View HTML'') of
        None \<Rightarrow> Inr (emit (Log WARNING NoHtmlLink) s)
      | Some html_link \<Rightarrow>
          if is_duplicate (all_papers_global s) html_link
          then Inr (emit (Log INFO (AlreadyCrawled html_link)) s)
          else
            (case get_arxiv_soup w html_link of
               None \<Rightarrow> Inr (emit (Log WARNING (DetailFetchFailed html_link)) s)
             | Some paper_soup \<Rightarrow>
                 (case find dd [ascii ''div''] (has_class (ascii ''meta'')) of
                    None \<Rightarrow> Inr (emit (Log WARNING (NoMeta html_link)) s)
                  | Some meta_div \<Rightarrow>
                      (case extract_introduction paper_soup of
                         Inl e \<Rightarrow> Inl (e, s)
                       | Inr intro \<Rightarrow>
                           (let paper_data =
                                  assemble w crawl_dt dt meta_div html_link paper_soup intro
                            in case append_paper current_date paper_data (all_papers_global s) of
                                 Inl e \<Rightarrow> Inl (e, s)
                               | Inr A \<Rightarrow>
                                   Inr (emit (Log INFO (Completed page idx
                                                          (take 30 (title paper_data))))
                                          (s\<lparr>all_papers_global := A\<rparr>)))))))"

fun for_items ::
  "world \<Rightarrow> pystr \<Rightarrow> pystr \<Rightarrow> nat \<Rightarrow> nat \<Rightarrow> nat \<Rightarrow> (node \<times> node) list \<Rightarrow> state
   \<Rightarrow> (exn \<times> state) + state" where
  "for_items w current_date crawl_dt page n_items idx [] s = Inr s"
| "for_items w current_date crawl_dt page n_items idx ((dt, dd) # rest) s =
     (case process_item w current_date crawl_dt page n_items idx dt dd s of
        Inl e \<Rightarrow> Inl e
      | Inr s' \<Rightarrow> for_items w current_date crawl_dt page n_items (idx + 1) rest s')"

text \<open>The two lists of a listing page, cut to the shorter one when they differ.\<close>

definition pair_up :: "nat \<Rightarrow> node list \<Rightarrow> node list \<Rightarrow> (node list \<times> node list) \<times> event list" where
  "pair_up page dt_list dd_list =
     (if length dt_list \<noteq> length dd_list
      then (let min_len = min (length dt_list) (length dd_list)
            in ((take min_len dt_list, take min_len dd_list),
                [Log WARNING (Mismatch page min_len)]))
      else ((dt_list, dd_list), []))"

text \<open>Step 4: the archive file is written after every page; a failure is logged.\<close>

definition save_page :: "world \<Rightarrow> nat \<Rightarrow> state \<Rightarrow> state" where
  "save_page w page s =
     (case json_dump_error w (all_papers_global s) of
        None \<Rightarrow> emit (Log INFO (PageSaved page)) (emit (JsonDump (all_papers_global s)) s)
      | Some msg \<Rightarrow> emit (Log ERROR (PageSaveFailed page msg)) s)"

text \<open>
  Step 5: \<^verbatim>\<open>tag.string\<close> is the only string below a tag, through only children, and
  the link to the next page is the first \<^verbatim>\<open>a\<close> whose string holds \<^verbatim>\<open>next\<close> (in any
  case) and \<^verbatim>\<open>>\<close>.
\<close>

fun tag_string :: "node \<Rightarrow> pystr option" where
  "tag_string (NavigableString s) = Some s"
| "tag_string (Tag n cl at []) = None"
| "tag_string (Tag n cl at [c]) = tag_string c"
| "tag_string (Tag n cl at (c # d # cs)) = None"

definition is_next_link :: "node \<Rightarrow> bool" where
  "is_next_link t =
     (case tag_string t of
        None \<Rightarrow> False
      | Some x \<Rightarrow> x \<noteq> [] \<and> str_in (ascii ''next'') (lower x) \<and> str_in (ascii ''>'') x)"

definition next_page_url :: "node \<Rightarrow> pystr option" where
  "next_page_url list_soup =
     (case find list_soup [ascii ''a''] is_next_link of
        None \<Rightarrow> None
      | Some next_page_tag \<Rightarrow>
          (case get_attr next_page_tag (ascii ''href'') of
             None \<Rightarrow> None
           | Some href \<Rightarrow> Some (absolute (strip href))))"

text \<open>\<^verbatim>\<open>if max_pages and current_page > max_pages\<close>\<close>

definition max_pages_reached :: "int option \<Rightarrow> nat \<Rightarrow> bool" where
  "max_pages_reached max_pages current_page =
     (case max_pages of None \<Rightarrow> False | Some m \<Rightarrow> m \<noteq> 0 \<and> m < int current_page)"

text \<open>
  One turn of the \<^verbatim>\<open>while True\<close> loop: the loop is left (\<open>Stopped\<close>), an exception
  leaves the function (\<open>Raised\<close>), or the next turn starts at another URL.
\<close>

datatype step = Stopped state | Raised exn state | Continue pystr state

definition crawl_page :: "world \<Rightarrow> pystr \<Rightarrow> int option \<Rightarrow> pystr \<Rightarrow> nat \<Rightarrow> state \<Rightarrow> step" where
  "crawl_page w current_date max_pages url current_page s0 =
     (if max_pages_reached max_pages current_page
      then Stopped (emit (Log INFO (MaxPagesReached max_pages)) s0)
      else
        (let s = emit (Log INFO (PageStart current_page url)) s0 in
         case get_arxiv_soup w url of
           None \<Rightarrow> Stopped (emit (Log ERROR (ListFetchFailed current_page)) s)
         | Some list_soup \<Rightarrow>
             (case find list_soup [ascii ''dl''] (attr_is (ascii ''id'') (ascii ''articles'')) of
                None \<Rightarrow> Stopped (emit (Log ERROR (NoArticles current_page)) s)
              | Some articles_dl \<Rightarrow>
                  (let paired = pair_up current_page
                                  (find_all articles_dl [ascii ''dt''] any_tag)
                                  (find_all articles_dl [ascii ''dd''] any_tag);
                       dt_list = fst (fst paired);
                       dd_list = snd (fst paired);
                       s1 = s\<lparr>trace := trace s @ snd paired\<rparr>
                   in case for_items w current_date (datetime_now w current_page) current_page
                             (length dt_list) 1 (zip dt_list dd_list) s1 of
                        Inl (e, s2) \<Rightarrow> Raised e s2
                      | Inr s2 \<Rightarrow>
                          (let s3 = save_page w current_page s2 in
                           case next_page_url list_soup of
                             None \<Rightarrow> Stopped (emit (Log INFO NoNextPage) s3)
                           | Some next_url \<Rightarrow> Continue next_url s3)))))"

text \<open>
  The loop may run for ever (no bound on the pages and a source whose every page links
  to a next one), so it runs on fuel, one unit for each turn: \<open>None\<close> says that the loop
  is still running when the fuel is used up. A run returns (\<open>Returned\<close>), or an exception
  leaves it from inside the loop (\<open>Failed\<close>) or before the loop, at the count of the
  entries (\<open>Aborted\<close>, with the log so far): the caller catches it, logs it and ends the
  process with status 1.
\<close>

datatype outcome = Returned state | Failed exn state | Aborted exn "event list"

fun crawl_loop ::
  "nat \<Rightarrow> world \<Rightarrow> pystr \<Rightarrow> int option \<Rightarrow> pystr \<Rightarrow> nat \<Rightarrow> state \<Rightarrow> outcome option" where
  "crawl_loop 0 w current_date max_pages url current_page s = None"
| "crawl_loop (Suc fuel) w current_date max_pages url current_page s =
     (case crawl_page w current_date max_pages url current_page s of
        Stopped s' \<Rightarrow> Some (Returned s')
      | Raised e s' \<Rightarrow> Some (Failed e s')
      | Continue next_url s' \<Rightarrow>
          crawl_loop fuel w current_date max_pages next_url (current_page + 1) s')"

definition total_papers :: "archive \<Rightarrow> nat" where
  "total_papers A = sum_list (map (\<lambda>(d, papers). length papers) A)"

definition crawl_and_process_papers ::
  "nat \<Rightarrow> world \<Rightarrow> read_result \<Rightarrow> pystr \<Rightarrow> int option \<Rightarrow> outcome option" where
  "crawl_and_process_papers fuel w file initial_url max_pages =
     (case load_history file of
        Inl (e, logged) \<Rightarrow> Some (Aborted e logged)
      | Inr s \<Rightarrow>
          (let current_page = total_papers (all_papers_global s) div PAPERS_PER_PAGE + 1;
               current_date = date_today w;
               s1 = s\<lparr>all_papers_global := ensure_date current_date (all_papers_global s)\<rparr>
           in crawl_loop fuel w current_date max_pages initial_url current_page s1))"

section \<open>The interrupt handler\<close>

text \<open>
  \<^verbatim>\<open>signal_handler\<close> on the archive in memory: what it does, and the exit status that
  \<^verbatim>\<open>sys.exit(0)\<close> in its \<^verbatim>\<open>finally\<close> clause gives the process.
\<close>

definition signal_handler :: "world \<Rightarrow> archive \<Rightarrow> event list \<times> int" where
  "signal_handler w A =
     ([Log INFO Interrupted]
      @ (if A \<noteq> []
         then (case json_dump_error w A of
                 Some msg \<Rightarrow> [Log ERROR (InterruptSaveFailed msg)]
               | None \<Rightarrow>
                   [JsonDump A, Log INFO (InterruptSaved (length A)), RenderReport]
                   @ (case render_error w A of
                        Some msg \<Rightarrow> [Log ERROR (InterruptSaveFailed msg)]
                      | None \<Rightarrow> []))
         else [Log INFO NothingToSave]),
      0)"

section \<open>Notions the properties are stated with\<close>

text \<open>
  A score marker with the digits \<open>ds\<close> is present in \<open>s\<close>: the prefix, one digit or
  more, the suffix.
\<close>

definition has_marker :: "(nat \<Rightarrow> nat option) \<Rightarrow> pystr \<Rightarrow> pystr \<Rightarrow> bool" where
  "has_marker dec s ds =
     (ds \<noteq> [] \<and> list_all (isdigit dec) ds
      \<and> (\<exists>pre post. s = pre @ SCORE_PREFIX @ ds @ SCORE_SUFFIX # post))"

text \<open>
  The blocks of an introduction section. The paragraph blocks: for each paragraph
  container of the section in document order, the text of the first paragraph below it,
  if there is one. The lines of a list: one line for each list item below the list whose
  first paragraph container holds a paragraph, numbered with the position of the item,
  counted from 1, among all the list items below the list; the items of the lists nested
  in it are among them, and an item without a paragraph is counted and gives no line.
\<close>

definition paragraph_blocks :: "node \<Rightarrow> pystr list" where
  "paragraph_blocks sec =
     List.map_filter
       (\<lambda>para_div. map_option clean_text (find para_div [ascii ''p''] (has_class (ascii ''ltx_p''))))
       (find_all sec [ascii ''div''] (has_class (ascii ''ltx_para'')))"

definition item_line :: "nat \<Rightarrow> node \<Rightarrow> pystr option" where
  "item_line idx li =
     (case find li [ascii ''div''] (has_class (ascii ''ltx_para'')) of
        None \<Rightarrow> None
      | Some li_div \<Rightarrow>
          (case find li_div [ascii ''p''] (has_class (ascii ''ltx_p'')) of
             None \<Rightarrow> None
           | Some li_p \<Rightarrow> Some (str_of_nat idx @ ascii ''. '' @ clean_text li_p)))"

definition numbered_lines :: "nat \<Rightarrow> node list \<Rightarrow> pystr list" where
  "numbered_lines idx items =
     List.map_filter (\<lambda>(i, li). item_line i li) (zip [idx..<idx + length items] items)"

definition list_blocks :: "node \<Rightarrow> pystr list" where
  "list_blocks ul = numbered_lines 1 (find_all ul [ascii ''li''] (has_class (ascii ''ltx_item'')))"

text \<open>Every item of every list of the section holds a paragraph container.\<close>

definition items_have_para :: "node \<Rightarrow> bool" where
  "items_have_para sec =
     list_all
       (\<lambda>ul. list_all
                (\<lambda>li. find li [ascii ''div''] (has_class (ascii ''ltx_para'')) \<noteq> None)
                (find_all ul [ascii ''li''] (has_class (ascii ''ltx_item''))))
       (find_all sec [ascii ''ul''] (has_class (ascii ''ltx_itemize'')))"

text \<open>The identifiers of the entries of an archive, bucket after bucket.\<close>

definition entries :: "archive \<Rightarrow> paper list" where
  "entries A = concat (map snd A)"

definition identifiers :: "archive \<Rightarrow> pystr list" where
  "identifiers A = map arxiv_html_link (entries A)"

text \<open>The bucket of a date, empty when the archive does not hold the date.\<close>

definition bucket :: "archive \<Rightarrow> pystr \<Rightarrow> paper list" where
  "bucket A d = (case map_of A d of None \<Rightarrow> [] | Some papers \<Rightarrow> papers)"

text \<open>
  The state a run leaves behind (for a run that is ended before the loop, which has no
  archive in memory, the log with the empty archive), and the lines of a trace that
  report something.
\<close>

definition final_state :: "outcome \<Rightarrow> state" where
  "final_state out =
     (case out of
        Returned s \<Rightarrow> s
      | Failed e s \<Rightarrow> s
      | Aborted e logged \<Rightarrow> \<lparr>all_papers_global = [], trace = logged\<rparr>)"

definition step_state :: "step \<Rightarrow> state" where
  "step_state st = (case st of Stopped s \<Rightarrow> s | Raised e s \<Rightarrow> s | Continue url s \<Rightarrow> s)"

definition is_raised :: "step \<Rightarrow> bool" where
  "is_raised st = (case st of Raised e s \<Rightarrow> True | Stopped s \<Rightarrow> False | Continue url s \<Rightarrow> False)"

definition item_state :: "(exn \<times> state) + state \<Rightarrow> state" where
  "item_state r = (case r of Inl (e, s) \<Rightarrow> s | Inr s \<Rightarrow> s)"

definition is_processing :: "event \<Rightarrow> bool" where
  "is_processing e = (case e of Log l (Processing page idx n) \<Rightarrow> True | _ \<Rightarrow> False)"

definition is_completed :: "event \<Rightarrow> bool" where
  "is_completed e = (case e of Log l (Completed page idx ttl) \<Rightarrow> True | _ \<Rightarrow> False)"

text \<open>The archive with \<open>new\<close> appended to the bucket of the date \<open>d\<close>.\<close>

fun extend_bucket :: "pystr \<Rightarrow> paper list \<Rightarrow> archive \<Rightarrow> archive" where
  "extend_bucket d new [] = []"
| "extend_bucket d new ((k, papers) # rest) =
     (if k = d then (k, papers @ new) # rest else (k, papers) # extend_bucket d new rest)"

text \<open>A URL in absolute form: it starts with \<^verbatim>\<open>http://\<close> or \<^verbatim>\<open>https://\<close>, in any case.\<close>

definition is_absolute_url :: "pystr \<Rightarrow> bool" where
  "is_absolute_url url =
     (startswith (lower url) (ascii ''http://'') \<or> startswith (lower url) (ascii ''https://''))"

text \<open>
  What every stretch of a run does to the state: the entries \<open>new\<close> are appended to the
  bucket of the date \<open>d\<close>, one for each line that reports a completed paper; their
  identifiers are absolute URLs; no identifier is lost, and identifiers that were
  pairwise different stay so.
\<close>

definition grows :: "pystr \<Rightarrow> state \<Rightarrow> state \<Rightarrow> paper list \<Rightarrow> bool" where
  "grows d s s' new =
     (all_papers_global s' = extend_bucket d new (all_papers_global s)
      \<and> length (filter is_completed (trace s'))
          = length (filter is_completed (trace s)) + length new
      \<and> list_all (\<lambda>p. is_absolute_url (arxiv_html_link p)) new
      \<and> set (identifiers (all_papers_global s)) \<subseteq> set (identifiers (all_papers_global s'))
      \<and> (distinct (identifiers (all_papers_global s))
           \<longrightarrow> distinct (identifiers (all_papers_global s'))))"

text \<open>The items of a listing: the pairs the loop walks.\<close>

definition page_items :: "node \<Rightarrow> (node \<times> node) list" where
  "page_items articles_dl =
     (let paired = pair_up 0 (find_all articles_dl [ascii ''dt''] any_tag)
                     (find_all articles_dl [ascii ''dd''] any_tag)
      in zip (fst (fst paired)) (snd (fst paired)))"

text \<open>
  A score marker with the digits \<open>ds\<close> stands at position \<open>k\<close> of \<open>s\<close>. The leftmost
  marker of \<open>s\<close> is the one a reader meets first: it stands at the first position that
  holds a marker, and it has as many digits as a marker at that position can have.
\<close>

definition marker_at :: "(nat \<Rightarrow> nat option) \<Rightarrow> pystr \<Rightarrow> nat \<Rightarrow> pystr \<Rightarrow> bool" where
  "marker_at dec s k ds =
     (ds \<noteq> [] \<and> list_all (isdigit dec) ds
      \<and> startswith (drop k s) (SCORE_PREFIX @ ds @ [SCORE_SUFFIX]))"

definition leftmost_marker :: "(nat \<Rightarrow> nat option) \<Rightarrow> pystr \<Rightarrow> pystr \<Rightarrow> bool" where
  "leftmost_marker dec s ds =
     (\<exists>k. marker_at dec s k ds
          \<and> (\<forall>j<k. \<forall>ds'. \<not> marker_at dec s j ds')
          \<and> (\<forall>ds'. marker_at dec s k ds' \<longrightarrow> length ds' \<le> length ds))"

text \<open>
  A list read by its own structure: its items are its children that are list items, the
  text of an item is the text of the first paragraph of its first paragraph container,
  and the lines of the list are one line for each item, numbered 1, 2, ... in order. A
  list is plain when no list item lies deeper below it than its children, and each of
  its items has a text.
\<close>

definition is_item :: "node \<Rightarrow> bool" where
  "is_item t =
     (case t of
        Tag n cl at cs \<Rightarrow> n = ascii ''li'' \<and> has_class (ascii ''ltx_item'') t
      | NavigableString s \<Rightarrow> False)"

definition own_items :: "node \<Rightarrow> node list" where
  "own_items ul = (case ul of Tag n cl at cs \<Rightarrow> filter is_item cs | NavigableString s \<Rightarrow> [])"

definition item_text :: "node \<Rightarrow> pystr option" where
  "item_text li =
     (case find li [ascii ''div''] (has_class (ascii ''ltx_para'')) of
        None \<Rightarrow> None
      | Some li_div \<Rightarrow>
          map_option clean_text (find li_div [ascii ''p''] (has_class (ascii ''ltx_p''))))"

definition one_line_per_item :: "node \<Rightarrow> pystr list" where
  "one_line_per_item ul =
     map (\<lambda>(k, li). str_of_nat k @ ascii ''. ''
                     @ (case item_text li of Some tx \<Rightarrow> tx | None \<Rightarrow> []))
       (zip [1..<Suc (length (own_items ul))] (own_items ul))"

definition plain_list :: "node \<Rightarrow> bool" where
  "plain_list ul =
     (case ul of
        Tag n cl at cs \<Rightarrow>
          list_all (\<lambda>c. find_all c [ascii ''li''] (has_class (ascii ''ltx_item'')) = []) cs
          \<and> list_all (\<lambda>li. item_text li \<noteq> None) (filter is_item cs)
      | NavigableString s \<Rightarrow> False)"

section \<open>Example inputs\<close>

definition ascii_decimal :: "nat \<Rightarrow> nat option" where
  "ascii_decimal c = (if 48 \<le> c \<and> c \<le> 57 then Some (c - 48) else None)"

text \<open>
  A world in which nothing answers: every request fails. Its JSON decoder takes the body
  itself for the content of the reply.
\<close>

definition offline_world :: world where
  "offline_world =
     \<lparr>http_get = (\<lambda>url. None),
      llm_post = (\<lambda>ttl abstr intro. ConnectionFailed (ascii ''timed out'')),
      json_content = (\<lambda>body. Inr body),
      todecimal = ascii_decimal,
      int_refuses = (\<lambda>ds. None),
      set_order = (\<lambda>urls. remdups urls),
      date_today = ascii ''2025-01-02'',
      datetime_now = (\<lambda>page. ascii ''2025-01-02 03:04:05''),
      json_dump_error = (\<lambda>A. None),
      render_error = (\<lambda>A. None)\<rparr>"

text \<open>
  The summarizer answers with some words, a marker of score 4 and then a marker of
  score 9; and it answers with a marker of score 9 and then a marker of score 3.
\<close>

definition four_then_nine :: pystr where
  "four_then_nine =
     ascii ''ok '' @ SCORE_PREFIX @ [52, SCORE_SUFFIX] @ SCORE_PREFIX @ [57, SCORE_SUFFIX]"

definition nine_then_three :: pystr where
  "nine_then_three = SCORE_PREFIX @ [57, SCORE_SUFFIX] @ SCORE_PREFIX @ [51, SCORE_SUFFIX]"

definition four_world :: world where
  "four_world = offline_world\<lparr>llm_post := (\<lambda>ttl abstr intro. Reply 200 four_then_nine)\<rparr>"

definition two_marker_world :: world where
  "two_marker_world = offline_world\<lparr>llm_post := (\<lambda>ttl abstr intro. Reply 200 nine_then_three)\<rparr>"

text \<open>The summarizer answers with the status 500.\<close>

definition failing_world :: world where
  "failing_world =
     offline_world\<lparr>llm_post := (\<lambda>ttl abstr intro. Reply 500 (SCORE_PREFIX @ [52, SCORE_SUFFIX]))\<rparr>"

text \<open>The archive file cannot be written.\<close>

definition readonly_world :: world where
  "readonly_world = offline_world\<lparr>json_dump_error := (\<lambda>A. Some (ascii ''Permission denied''))\<rparr>"

definition one_day_archive :: archive where
  "one_day_archive = [(ascii ''2025-01-02'', [])]"

text \<open>A detail page whose abstract paragraph is there and empty.\<close>

definition empty_abstract_page :: node where
  "empty_abstract_page =
     Tag (ascii ''[document]'') [] []
       [Tag (ascii ''div'') [ascii ''ltx_abstract''] []
          [Tag (ascii ''p'') [ascii ''ltx_p''] [] []]]"

text \<open>A detail page whose introduction holds a list item without a paragraph container.\<close>

definition bare_item_page :: node where
  "bare_item_page =
     Tag (ascii ''[document]'') [] []
       [Tag (ascii ''section'') [] [(ascii ''id'', ascii ''S1'')]
          [Tag (ascii ''ul'') [ascii ''ltx_itemize''] []
             [Tag (ascii ''li'') [ascii ''ltx_item''] [] [NavigableString (ascii ''x'')]]]]"

text \<open>An introduction that is a list of one item followed by a paragraph, and its page.\<close>

definition list_first_section :: node where
  "list_first_section =
     Tag (ascii ''section'') [] [(ascii ''id'', ascii ''S1'')]
       [Tag (ascii ''ul'') [ascii ''ltx_itemize''] []
          [Tag (ascii ''li'') [ascii ''ltx_item''] []
             [Tag (ascii ''div'') [ascii ''ltx_para''] []
                [Tag (ascii ''p'') [ascii ''ltx_p''] [] [NavigableString (ascii ''B'')]]]],
        Tag (ascii ''div'') [ascii ''ltx_para''] []
          [Tag (ascii ''p'') [ascii ''ltx_p''] [] [NavigableString (ascii ''C'')]]]"

definition list_first_page :: node where
  "list_first_page = Tag (ascii ''[document]'') [] [] [list_first_section]"

text \<open>A page with nothing on it.\<close>

definition blank_page :: node where
  "blank_page = Tag (ascii ''[document]'') [] [] []"

text \<open>
  A source of one listing page with one item, whose detail page has nothing on it; the
  summarizer cannot be reached.
\<close>

definition LIST_URL :: pystr where
  "LIST_URL = ascii ''https://arxiv.org/list/cs.RO/recent''"

definition ITEM_URL :: pystr where
  "ITEM_URL = ascii ''https://arxiv.org/html/1''"

definition item_dt :: node where
  "item_dt =
     Tag (ascii ''dt'') [] []
       [Tag (ascii ''a'') [] [(ascii ''title'', ascii ''View HTML''), (ascii ''href'', ascii ''/html/1'')]
          []]"

definition item_meta :: node where
  "item_meta = Tag (ascii ''div'') [ascii ''meta''] [] []"

definition item_dd :: node where
  "item_dd = Tag (ascii ''dd'') [] [] [item_meta]"

definition articles :: node where
  "articles = Tag (ascii ''dl'') [] [(ascii ''id'', ascii ''articles'')] [item_dt, item_dd]"

definition listing_page :: node where
  "listing_page = Tag (ascii ''[document]'') [] [] [articles]"

definition small_site :: world where
  "small_site =
     offline_world\<lparr>http_get :=
       (\<lambda>url. if url = LIST_URL then Some listing_page
              else if url = ITEM_URL then Some blank_page
              else None)\<rparr>"

definition item_paper :: paper where
  "item_paper =
     assemble small_site (ascii ''2025-01-02 03:04:05'') item_dt item_meta ITEM_URL blank_page
       NO_INTRODUCTION"

definition start_state :: state where
  "start_state = \<lparr>all_papers_global = one_day_archive, trace = []\<rparr>"

text \<open>A listing with five link entries and four metadata entries, none with a link.\<close>

definition uneven_articles :: node where
  "uneven_articles =
     Tag (ascii ''dl'') [] [(ascii ''id'', ascii ''articles'')]
       [Tag (ascii ''dt'') [] [] [], Tag (ascii ''dd'') [] [] [],
        Tag (ascii ''dt'') [] [] [], Tag (ascii ''dd'') [] [] [],
        Tag (ascii ''dt'') [] [] [], Tag (ascii ''dd'') [] [] [],
        Tag (ascii ''dt'') [] [] [], Tag (ascii ''dd'') [] [] [],
        Tag (ascii ''dt'') [] [] []]"

definition uneven_page :: node where
  "uneven_page = Tag (ascii ''[document]'') [] [] [uneven_articles]"

definition uneven_site :: world where
  "uneven_site =
     offline_world\<lparr>http_get := (\<lambda>url. if url = LIST_URL then Some uneven_page else None)\<rparr>"

text \<open>An archive of an earlier day, with one entry.\<close>

definition old_paper :: paper where
  "old_paper = item_paper\<lparr>arxiv_html_link := ascii ''https://arxiv.org/html/0''\<rparr>"

definition old_archive :: archive where
  "old_archive = [(ascii ''2025-01-01'', [old_paper])]"

text \<open>
  An introduction whose list holds an item with a list of its own, and one whose list has
  three items, the second without a paragraph in its container.
\<close>

definition nested_list_page :: node where
  "nested_list_page =
     Tag (ascii ''[document]'') [] []
       [Tag (ascii ''section'') [] [(ascii ''id'', ascii ''S1'')]
          [Tag (ascii ''ul'') [ascii ''ltx_itemize''] []
             [Tag (ascii ''li'') [ascii ''ltx_item''] []
                [Tag (ascii ''div'') [ascii ''ltx_para''] []
                   [Tag (ascii ''p'') [ascii ''ltx_p''] [] [NavigableString (ascii ''O'')]],
                 Tag (ascii ''ul'') [ascii ''ltx_itemize''] []
                   [Tag (ascii ''li'') [ascii ''ltx_item''] []
                      [Tag (ascii ''div'') [ascii ''ltx_para''] []
                         [Tag (ascii ''p'') [ascii ''ltx_p''] []
                            [NavigableString (ascii ''I'')]]]]]]]]"

definition gap_list_page :: node where
  "gap_list_page =
     Tag (ascii ''[document]'') [] []
       [Tag (ascii ''section'') [] [(ascii ''id'', ascii ''S1'')]
          [Tag (ascii ''ul'') [ascii ''ltx_itemize''] []
             [Tag (ascii ''li'') [ascii ''ltx_item''] []
                [Tag (ascii ''div'') [ascii ''ltx_para''] []
                   [Tag (ascii ''p'') [ascii ''ltx_p''] [] [NavigableString (ascii ''A'')]]],
              Tag (ascii ''li'') [ascii ''ltx_item''] []
                [Tag (ascii ''div'') [ascii ''ltx_para''] [] []],
              Tag (ascii ''li'') [ascii ''ltx_item''] []
                [Tag (ascii ''div'') [ascii ''ltx_para''] []
                   [Tag (ascii ''p'') [ascii ''ltx_p''] [] [NavigableString (ascii ''C'')]]]]]]"

section \<open>Properties\<close>

subsection \<open>Strings and pages\<close>

lemma ascii_eq_iff [simp]: "(ascii a = ascii b) = (a = b)"
  unfolding ascii_def by (simp add: inj_map_eq_map inj_on_def)

lemma ascii_Nil [simp]: "ascii [] = []"
  by (simp add: ascii_def)

lemma ascii_eq_Nil [simp]: "(ascii a = []) = (a = [])"
  by (simp add: ascii_def)

lemma startswith_append: "startswith s p \<Longrightarrow> s = p @ drop (length p) s"
  unfolding startswith_def by (metis append_take_drop_id)

lemmas dom_eval =
  find_def find_all_def has_class_def has_class_in_def attr_is_def has_attr_def get_attr_def
  any_tag_def is_navigation_def clean_text_def get_text_def get_text_strip_def

subsection \<open>Loading the archive\<close>

text \<open>
  C9, the part that holds: when the archive file is absent, when opening or decoding it
  raises, and when it decodes to a value without a length, the loading does not end the
  run: the run enters the crawl loop at page 1 with an archive that holds nothing but the
  empty bucket of today, and in the last two cases the failure is logged as a warning.
\<close>

theorem load_never_fatal:
  "crawl_and_process_papers fuel w FileNotFound url max_pages =
     crawl_loop fuel w (date_today w) max_pages url 1
       \<lparr>all_papers_global = [(date_today w, [])], trace = [Log INFO NoHistory]\<rparr>
   \<and> crawl_and_process_papers fuel w (ReadFailed msg) url max_pages =
     crawl_loop fuel w (date_today w) max_pages url 1
       \<lparr>all_papers_global = [(date_today w, [])], trace = [Log WARNING (LoadFailed msg)]\<rparr>
   \<and> crawl_and_process_papers fuel w (NoLength msg) url max_pages =
     crawl_loop fuel w (date_today w) max_pages url 1
       \<lparr>all_papers_global = [(date_today w, [])], trace = [Log WARNING (LoadFailed msg)]\<rparr>
   \<and> load_history FileNotFound = Inr \<lparr>all_papers_global = [], trace = [Log INFO NoHistory]\<rparr>
   \<and> load_history (ReadFailed msg) =
       Inr \<lparr>all_papers_global = [], trace = [Log WARNING (LoadFailed msg)]\<rparr>
   \<and> load_history (NoLength msg) =
       Inr \<lparr>all_papers_global = [], trace = [Log WARNING (LoadFailed msg)]\<rparr>"
  by (simp add: crawl_and_process_papers_def load_history_def ensure_date_def total_papers_def
      PAPERS_PER_PAGE_def Let_def)

text \<open>
  C9 as stated fails: a file that holds an empty array, a string of three characters, or
  an object whose one value is a number, is decoded without an exception, and the count
  of the entries that follows the \<^verbatim>\<open>try\<close> block raises: the run is ended before its
  first page, whatever the fuel, the world and the URL are (here a world that is offline).
\<close>

theorem load_fatal_counterexample:
  "crawl_and_process_papers (Suc 0) offline_world (Sequence 0) LIST_URL None
     = Some (Aborted AttributeError [Log INFO (LoadedHistory 0)])
   \<and> crawl_and_process_papers (Suc 0) offline_world (Sequence 3) LIST_URL None
     = Some (Aborted AttributeError [Log INFO (LoadedHistory 3)])
   \<and> crawl_and_process_papers (Suc 0) offline_world (Ragged 1) LIST_URL None
     = Some (Aborted TypeError [Log INFO (LoadedHistory 1)])"
  by (simp add: crawl_and_process_papers_def load_history_def)

subsection \<open>The interrupt handler\<close>

text \<open>
  C4, as the code has it: the handler always ends the process with status 0. It writes
  the archive file and then calls the renderer exactly when the archive holds a date and
  the write succeeds; on an archive without a date it only logs that nothing is to be
  saved.
\<close>

theorem handler_renders_after_flush:
  "snd (signal_handler w A) = 0
   \<and> (JsonDump A \<in> set (fst (signal_handler w A))) = (A \<noteq> [] \<and> json_dump_error w A = None)
   \<and> (RenderReport \<in> set (fst (signal_handler w A))) = (A \<noteq> [] \<and> json_dump_error w A = None)
   \<and> fst (signal_handler w []) = [Log INFO Interrupted, Log INFO NothingToSave]"
  by (auto simp: signal_handler_def split: option.splits)

text \<open>
  C4 as stated fails: with an archive that holds a date and a file that cannot be
  written, the renderer is not called (and the status is still 0).
\<close>

theorem handler_skips_renderer_counterexample:
  "one_day_archive \<noteq> []
   \<and> RenderReport \<notin> set (fst (signal_handler readonly_world one_day_archive))
   \<and> snd (signal_handler readonly_world one_day_archive) = 0"
  by (simp add: signal_handler_def readonly_world_def one_day_archive_def)

subsection \<open>Extraction of abstract and introduction\<close>

lemma para_loop_closed:
  "para_loop divs acc =
     acc @ List.map_filter
             (\<lambda>para_div. map_option clean_text
                (find para_div [ascii ''p''] (has_class (ascii ''ltx_p'')))) divs"
  by (induction divs arbitrary: acc) (auto simp: List.map_filter_simps split: option.splits)

lemma numbered_lines_Nil: "numbered_lines idx [] = []"
  by (simp add: numbered_lines_def List.map_filter_simps)

lemma numbered_lines_Cons:
  "numbered_lines idx (li # items) =
     (case item_line idx li of
        None \<Rightarrow> numbered_lines (Suc idx) items
      | Some line \<Rightarrow> line # numbered_lines (Suc idx) items)"
proof -
  have u: "[idx..<idx + length (li # items)] = idx # [Suc idx..<Suc idx + length items]"
    by (subst upt_rec) simp
  show ?thesis
    unfolding numbered_lines_def u
    by (simp add: List.map_filter_simps split: option.splits)
qed

lemma item_loop_closed:
  "list_all (\<lambda>li. find li [ascii ''div''] (has_class (ascii ''ltx_para'')) \<noteq> None) items \<Longrightarrow>
     item_loop idx items acc = Inr (acc @ numbered_lines idx items)"
proof (induction items arbitrary: idx acc)
  case Nil
  then show ?case by (simp add: numbered_lines_Nil)
next
  case (Cons li items)
  from Cons.prems have r: "list_all (\<lambda>li. find li [ascii ''div''] (has_class (ascii ''ltx_para'')) \<noteq> None) items"
    and h: "find li [ascii ''div''] (has_class (ascii ''ltx_para'')) \<noteq> None" by simp_all
  from h obtain d where d: "find li [ascii ''div''] (has_class (ascii ''ltx_para'')) = Some d"
    by blast
  show ?case
  proof (cases "find d [ascii ''p''] (has_class (ascii ''ltx_p''))")
    case None
    with d have "item_line idx li = None" by (simp add: item_line_def)
    with None d Cons.IH [OF r, of "Suc idx" acc] show ?thesis
      by (simp add: numbered_lines_Cons)
  next
    case (Some li_p)
    with d have "item_line idx li = Some (str_of_nat idx @ ascii ''. '' @ clean_text li_p)"
      by (simp add: item_line_def)
    with Some d
      Cons.IH [OF r, of "Suc idx" "acc @ [str_of_nat idx @ ascii ''. '' @ clean_text li_p]"]
    show ?thesis
      by (simp add: numbered_lines_Cons)
  qed
qed

lemma list_loop_closed:
  "list_all
     (\<lambda>ul. list_all (\<lambda>li. find li [ascii ''div''] (has_class (ascii ''ltx_para'')) \<noteq> None)
              (find_all ul [ascii ''li''] (has_class (ascii ''ltx_item'')))) uls \<Longrightarrow>
     list_loop uls acc = Inr (acc @ concat (map list_blocks uls))"
  by (induction uls arbitrary: acc) (simp_all add: item_loop_closed list_blocks_def)

lemma extract_introduction_closed:
  assumes "find soup [ascii ''section''] (attr_is (ascii ''id'') (ascii ''S1'')) = Some found"
    and "items_have_para (decompose_all is_navigation found)"
  shows "extract_introduction soup =
           Inr (let sec = decompose_all is_navigation found;
                    blocks = paragraph_blocks sec
                             @ concat (map list_blocks
                                 (find_all sec [ascii ''ul''] (has_class (ascii ''ltx_itemize''))))
                in if blocks \<noteq> [] then join (ascii [CHR 0x0A, CHR 0x0A]) blocks
                   else NO_INTRODUCTION)"
  using assms
  by (simp add: extract_introduction_def Let_def para_loop_closed paragraph_blocks_def
      items_have_para_def list_loop_closed)

text \<open>
  C7, as the code has it: the placeholders are not empty. The abstract is the placeholder
  when the abstract container or its paragraph is missing, and the cleaned text of the
  paragraph otherwise (which may be empty). The introduction is the placeholder when the
  section is missing; when every list item of the section holds a paragraph container,
  extraction returns, and it returns the placeholder when the section yields no block.
\<close>

theorem placeholder_when_missing:
  "NO_ABSTRACT \<noteq> [] \<and> NO_INTRODUCTION \<noteq> []
   \<and> (find soup [ascii ''div''] (has_class (ascii ''ltx_abstract'')) = None
        \<longrightarrow> extract_abstract soup = NO_ABSTRACT)
   \<and> (\<forall>c. find soup [ascii ''div''] (has_class (ascii ''ltx_abstract'')) = Some c
           \<and> find c [ascii ''p''] (has_class (ascii ''ltx_p'')) = None
        \<longrightarrow> extract_abstract soup = NO_ABSTRACT)
   \<and> (\<forall>c p. find soup [ascii ''div''] (has_class (ascii ''ltx_abstract'')) = Some c
           \<and> find c [ascii ''p''] (has_class (ascii ''ltx_p'')) = Some p
        \<longrightarrow> extract_abstract soup = clean_text p)
   \<and> (find soup [ascii ''section''] (attr_is (ascii ''id'') (ascii ''S1'')) = None
        \<longrightarrow> extract_introduction soup = Inr NO_INTRODUCTION)
   \<and> (\<forall>found. find soup [ascii ''section''] (attr_is (ascii ''id'') (ascii ''S1'')) = Some found
           \<and> items_have_para (decompose_all is_navigation found)
        \<longrightarrow> (\<exists>r. extract_introduction soup = Inr r))
   \<and> (\<forall>found. find soup [ascii ''section''] (attr_is (ascii ''id'') (ascii ''S1'')) = Some found
           \<and> items_have_para (decompose_all is_navigation found)
           \<and> paragraph_blocks (decompose_all is_navigation found) = []
           \<and> concat (map list_blocks
                 (find_all (decompose_all is_navigation found) [ascii ''ul'']
                    (has_class (ascii ''ltx_itemize'')))) = []
        \<longrightarrow> extract_introduction soup = Inr NO_INTRODUCTION)"
proof (intro conjI impI allI)
  show "NO_ABSTRACT \<noteq> []" by (simp add: NO_ABSTRACT_def)
  show "NO_INTRODUCTION \<noteq> []" by (simp add: NO_INTRODUCTION_def)
next
  assume "find soup [ascii ''div''] (has_class (ascii ''ltx_abstract'')) = None"
  then show "extract_abstract soup = NO_ABSTRACT" by (simp add: extract_abstract_def)
next
  fix c
  assume "find soup [ascii ''div''] (has_class (ascii ''ltx_abstract'')) = Some c
           \<and> find c [ascii ''p''] (has_class (ascii ''ltx_p'')) = None"
  then show "extract_abstract soup = NO_ABSTRACT" by (simp add: extract_abstract_def)
next
  fix c p
  assume "find soup [ascii ''div''] (has_class (ascii ''ltx_abstract'')) = Some c
           \<and> find c [ascii ''p''] (has_class (ascii ''ltx_p'')) = Some p"
  then show "extract_abstract soup = clean_text p" by (simp add: extract_abstract_def)
next
  assume "find soup [ascii ''section''] (attr_is (ascii ''id'') (ascii ''S1'')) = None"
  then show "extract_introduction soup = Inr NO_INTRODUCTION"
    by (simp add: extract_introduction_def)
next
  fix found
  assume "find soup [ascii ''section''] (attr_is (ascii ''id'') (ascii ''S1'')) = Some found
           \<and> items_have_para (decompose_all is_navigation found)"
  then show "\<exists>r. extract_introduction soup = Inr r"
    using extract_introduction_closed [of soup found] by blast
next
  fix found
  assume h: "find soup [ascii ''section''] (attr_is (ascii ''id'') (ascii ''S1'')) = Some found
           \<and> items_have_para (decompose_all is_navigation found)
           \<and> paragraph_blocks (decompose_all is_navigation found) = []
           \<and> concat (map list_blocks
                 (find_all (decompose_all is_navigation found) [ascii ''ul'']
                    (has_class (ascii ''ltx_itemize'')))) = []"
  then have "extract_introduction soup =
           Inr (let sec = decompose_all is_navigation found;
                    blocks = paragraph_blocks sec
                             @ concat (map list_blocks
                                 (find_all sec [ascii ''ul''] (has_class (ascii ''ltx_itemize''))))
                in if blocks \<noteq> [] then join (ascii [CHR 0x0A, CHR 0x0A]) blocks
                   else NO_INTRODUCTION)"
    using extract_introduction_closed [of soup found] by blast
  with h show "extract_introduction soup = Inr NO_INTRODUCTION" by (simp add: Let_def)
qed

text \<open>C7, witness: on a page with nothing on it both extractions give their placeholder.\<close>

theorem placeholder_when_missing_witness:
  "extract_abstract blank_page = NO_ABSTRACT
   \<and> extract_introduction blank_page = Inr NO_INTRODUCTION"
proof -
  have a: "find blank_page [ascii ''div''] (has_class (ascii ''ltx_abstract'')) = None"
    by (simp add: blank_page_def dom_eval)
  have i: "find blank_page [ascii ''section''] (attr_is (ascii ''id'') (ascii ''S1'')) = None"
    by (simp add: blank_page_def dom_eval)
  note t = placeholder_when_missing [of blank_page]
  from t [THEN conjunct2, THEN conjunct2, THEN conjunct1] a
  have "extract_abstract blank_page = NO_ABSTRACT" by blast
  moreover
  from t [THEN conjunct2, THEN conjunct2, THEN conjunct2, THEN conjunct2, THEN conjunct2,
      THEN conjunct1] i
  have "extract_introduction blank_page = Inr NO_INTRODUCTION" by blast
  ultimately show ?thesis by simp
qed

text \<open>
  C7 as stated fails: an abstract paragraph that is there and empty gives the empty
  string, and a list item without a paragraph container makes the extraction of the
  introduction raise.
\<close>

theorem extraction_counterexample:
  "extract_abstract empty_abstract_page = []
   \<and> extract_introduction bare_item_page = Inl AttributeError"
  by (simp add: extract_abstract_def extract_introduction_def empty_abstract_page_def
      bare_item_page_def dom_eval strip_def)

lemma item_line_text:
  "item_line idx li = map_option (\<lambda>tx. str_of_nat idx @ ascii ''. '' @ tx) (item_text li)"
  by (simp add: item_line_def item_text_def split: option.splits)

lemma numbered_lines_all:
  "list_all (\<lambda>li. item_text li \<noteq> None) items \<Longrightarrow>
     numbered_lines idx items =
       map (\<lambda>(k, li). str_of_nat k @ ascii ''. ''
                       @ (case item_text li of Some tx \<Rightarrow> tx | None \<Rightarrow> []))
         (zip [idx..<idx + length items] items)"
proof (induction items arbitrary: idx)
  case Nil
  then show ?case by (simp add: numbered_lines_Nil)
next
  case (Cons li items)
  from Cons.prems obtain tx where t: "item_text li = Some tx"
    and r: "list_all (\<lambda>li. item_text li \<noteq> None) items" by auto
  have u: "[idx..<idx + length (li # items)] = idx # [Suc idx..<Suc idx + length items]"
    by (subst upt_rec) simp
  from t have "item_line idx li = Some (str_of_nat idx @ ascii ''. '' @ tx)"
    by (simp add: item_line_text)
  with Cons.IH [OF r, of "Suc idx"] t show ?case
    unfolding u by (simp add: numbered_lines_Cons)
qed

lemma find_all_children:
  assumes "list_all (\<lambda>c. find_all c names P = []) cs"
  shows "find_all (Tag n cl at cs) names P =
           filter (\<lambda>t. case t of Tag n cl at cs \<Rightarrow> n \<in> set names \<and> P t
                        | NavigableString s \<Rightarrow> False) cs"
  using assms by (induction cs) (simp_all add: find_all_def)

lemma is_item_filter:
  "is_item = (\<lambda>t. case t of Tag n cl at cs \<Rightarrow> n \<in> set [ascii ''li'']
                                  \<and> has_class (ascii ''ltx_item'') t
                   | NavigableString s \<Rightarrow> False)"
  by (rule ext) (simp add: is_item_def split: node.splits)

lemma plain_list_items:
  assumes "plain_list ul"
  shows "find_all ul [ascii ''li''] (has_class (ascii ''ltx_item'')) = own_items ul"
    and "list_all (\<lambda>li. item_text li \<noteq> None) (own_items ul)"
proof -
  from assms obtain n cl at cs where ul: "ul = Tag n cl at cs"
    by (cases ul) (simp_all add: plain_list_def)
  with assms have f: "list_all (\<lambda>c. find_all c [ascii ''li''] (has_class (ascii ''ltx_item'')) = []) cs"
    and t: "list_all (\<lambda>li. item_text li \<noteq> None) (filter is_item cs)"
    by (simp_all add: plain_list_def)
  from find_all_children [OF f] ul
  show "find_all ul [ascii ''li''] (has_class (ascii ''ltx_item'')) = own_items ul"
    by (simp add: own_items_def is_item_filter)
  from t ul show "list_all (\<lambda>li. item_text li \<noteq> None) (own_items ul)"
    by (simp add: own_items_def)
qed

lemma plain_list_blocks:
  assumes "plain_list ul"
  shows "list_blocks ul = one_line_per_item ul"
  using numbered_lines_all [OF plain_list_items(2) [OF assms], of 1]
  by (simp add: list_blocks_def plain_list_items(1) [OF assms] one_line_per_item_def)

text \<open>
  C8, as the code has it: when every list item of the section holds a paragraph
  container, the introduction is its blocks joined by a blank line (the placeholder when
  there is no block), in two passes: first the paragraph blocks of the section in
  document order, those inside list items among them; then, for each list of the section
  in document order, the lines of the list, where an item is numbered with its position
  among all the list items below the list. For a plain list these lines are one line for
  each of its items, numbered 1, 2, ... in order.
\<close>

theorem introduction_blocks:
  assumes "find soup [ascii ''section''] (attr_is (ascii ''id'') (ascii ''S1'')) = Some found"
    and "items_have_para (decompose_all is_navigation found)"
  shows "extract_introduction soup =
     Inr (let sec = decompose_all is_navigation found;
              blocks = paragraph_blocks sec
                       @ concat (map list_blocks
                           (find_all sec [ascii ''ul''] (has_class (ascii ''ltx_itemize''))))
          in if blocks \<noteq> [] then join (ascii [CHR 0x0A, CHR 0x0A]) blocks
             else NO_INTRODUCTION)
   \<and> (\<forall>ul \<in> set (find_all (decompose_all is_navigation found) [ascii ''ul'']
                    (has_class (ascii ''ltx_itemize''))).
        plain_list ul \<longrightarrow>
          list_blocks ul = one_line_per_item ul
          \<and> length (list_blocks ul) = length (own_items ul))"
proof (intro conjI ballI impI)
  from assms show "extract_introduction soup =
     Inr (let sec = decompose_all is_navigation found;
              blocks = paragraph_blocks sec
                       @ concat (map list_blocks
                           (find_all sec [ascii ''ul''] (has_class (ascii ''ltx_itemize''))))
          in if blocks \<noteq> [] then join (ascii [CHR 0x0A, CHR 0x0A]) blocks
             else NO_INTRODUCTION)"
    by (rule extract_introduction_closed)
next
  fix ul
  assume "plain_list ul"
  then show "list_blocks ul = one_line_per_item ul" by (rule plain_list_blocks)
next
  fix ul
  assume "plain_list ul"
  from plain_list_blocks [OF this]
  show "length (list_blocks ul) = length (own_items ul)"
    by (simp add: one_line_per_item_def del: upt_Suc)
qed

lemma list_first_found:
  "find list_first_page [ascii ''section''] (attr_is (ascii ''id'') (ascii ''S1''))
     = Some list_first_section"
  by (simp add: list_first_page_def list_first_section_def dom_eval)

text \<open>
  C8, witness: the page whose introduction is a list of one item followed by a
  paragraph. Its list is plain and gives the one line of its item.
\<close>

theorem introduction_blocks_witness:
  "extract_introduction list_first_page = Inr (ascii ''B\<newline>\<newline>C\<newline>\<newline>1. B'')
   \<and> map list_blocks (find_all (decompose_all is_navigation list_first_section)
                       [ascii ''ul''] (has_class (ascii ''ltx_itemize'')))
       = [[ascii ''1. B'']]"
proof -
  have h: "items_have_para (decompose_all is_navigation list_first_section)"
    by (simp add: items_have_para_def list_first_section_def dom_eval)
  note t = introduction_blocks [OF list_first_found h]
  have u: "find_all (decompose_all is_navigation list_first_section)
             [ascii ''ul''] (has_class (ascii ''ltx_itemize''))
           = [Tag (ascii ''ul'') [ascii ''ltx_itemize''] []
               [Tag (ascii ''li'') [ascii ''ltx_item''] []
                 [Tag (ascii ''div'') [ascii ''ltx_para''] []
                   [Tag (ascii ''p'') [ascii ''ltx_p''] [] [NavigableString (ascii ''B'')]]]]]"
    by (simp add: list_first_section_def dom_eval)
  have p: "plain_list (Tag (ascii ''ul'') [ascii ''ltx_itemize''] []
               [Tag (ascii ''li'') [ascii ''ltx_item''] []
                 [Tag (ascii ''div'') [ascii ''ltx_para''] []
                   [Tag (ascii ''p'') [ascii ''ltx_p''] [] [NavigableString (ascii ''B'')]]]])"
    by (simp add: plain_list_def is_item_def item_text_def dom_eval)
  have o: "one_line_per_item (Tag (ascii ''ul'') [ascii ''ltx_itemize''] []
               [Tag (ascii ''li'') [ascii ''ltx_item''] []
                 [Tag (ascii ''div'') [ascii ''ltx_para''] []
                   [Tag (ascii ''p'') [ascii ''ltx_p''] [] [NavigableString (ascii ''B'')]]]])
           = [ascii ''1. B'']"
    by (simp add: one_line_per_item_def own_items_def is_item_def item_text_def dom_eval
        strip_def isspace_def startswith_def str_of_nat.simps ascii_def)
  from t [THEN conjunct2] u p o
  have b: "map list_blocks (find_all (decompose_all is_navigation list_first_section)
                       [ascii ''ul''] (has_class (ascii ''ltx_itemize'')))
       = [[ascii ''1. B'']]"
    by simp
  have pb: "paragraph_blocks (decompose_all is_navigation list_first_section)
              = [ascii ''B'', ascii ''C'']"
    by (simp add: paragraph_blocks_def list_first_section_def dom_eval List.map_filter_simps
        strip_def isspace_def startswith_def ascii_def)
  from t [THEN conjunct1] b pb
  have "extract_introduction list_first_page = Inr (ascii ''B\<newline>\<newline>C\<newline>\<newline>1. B'')"
    by (simp add: Let_def ascii_def)
  with b show ?thesis by simp
qed

text \<open>
  C8 as stated fails: on that page the list item comes first in the document, and the
  introduction starts with the paragraphs (the one of the item among them) and ends with
  the numbered line. A list item is not always rendered as one line with its place in
  its own list either: an item of a nested list gets a line from every list around it,
  and an item whose container holds no paragraph gets none and is counted.
\<close>

theorem introduction_order_counterexample:
  "extract_introduction list_first_page
     = Inr (ascii ''B\<newline>\<newline>C\<newline>\<newline>1. B'')
   \<and> extract_introduction list_first_page \<noteq> Inr (ascii ''1. B\<newline>\<newline>C'')
   \<and> extract_introduction nested_list_page
     = Inr (ascii ''O\<newline>\<newline>I\<newline>\<newline>1. O\<newline>\<newline>2. I\<newline>\<newline>1. I'')
   \<and> extract_introduction gap_list_page
     = Inr (ascii ''A\<newline>\<newline>C\<newline>\<newline>1. A\<newline>\<newline>3. C'')"
  by (simp add: extract_introduction_def list_first_page_def list_first_section_def
      nested_list_page_def gap_list_page_def dom_eval
      strip_def isspace_def startswith_def str_of_nat.simps ascii_def)

subsection \<open>The score of a summary\<close>

lemma digits_then_suffix_sound:
  "digits_then_suffix dec s = Some ds \<Longrightarrow>
     list_all (isdigit dec) ds \<and> (\<exists>rest. s = ds @ SCORE_SUFFIX # rest)"
  by (induction s arbitrary: ds) (auto split: option.splits if_splits)

lemma digits_then_suffix_complete:
  "list_all (isdigit dec) ds \<Longrightarrow>
     \<exists>ds'. digits_then_suffix dec (ds @ SCORE_SUFFIX # rest) = Some ds' \<and> length ds \<le> length ds'"
  by (induction ds) (auto split: option.splits if_splits)

lemma score_match_at_sound:
  assumes "score_match_at dec s = Some ds"
  shows "ds \<noteq> [] \<and> list_all (isdigit dec) ds \<and> (\<exists>post. s = SCORE_PREFIX @ ds @ SCORE_SUFFIX # post)"
proof -
  from assms have sw: "startswith s SCORE_PREFIX"
    and d: "digits_then_suffix dec (drop (length SCORE_PREFIX) s) = Some ds" and ne: "ds \<noteq> []"
    by (auto simp: score_match_at_def split: if_splits option.splits)
  from digits_then_suffix_sound [OF d] obtain rest where
    "list_all (isdigit dec) ds" "drop (length SCORE_PREFIX) s = ds @ SCORE_SUFFIX # rest" by blast
  with startswith_append [OF sw] ne show ?thesis by auto
qed

lemma score_search_sound:
  "score_search dec s = Some ds \<Longrightarrow> has_marker dec s ds"
proof (induction s)
  case Nil
  then show ?case by simp
next
  case (Cons c cs)
  show ?case
  proof (cases "score_match_at dec (c # cs)")
    case None
    with Cons have "has_marker dec cs ds" by simp
    then obtain pre post where "ds \<noteq> []" "list_all (isdigit dec) ds"
      "cs = pre @ SCORE_PREFIX @ ds @ SCORE_SUFFIX # post"
      unfolding has_marker_def by blast
    then have "c # cs = (c # pre) @ SCORE_PREFIX @ ds @ SCORE_SUFFIX # post" by simp
    with \<open>ds \<noteq> []\<close> \<open>list_all (isdigit dec) ds\<close> show ?thesis
      unfolding has_marker_def by blast
  next
    case (Some ds')
    with Cons.prems have "ds' = ds" by simp
    with score_match_at_sound [OF Some] show ?thesis
      unfolding has_marker_def by (metis append_Nil)
  qed
qed

lemma score_match_at_complete:
  assumes "ds \<noteq> []" "list_all (isdigit dec) ds"
  shows "score_match_at dec (SCORE_PREFIX @ ds @ SCORE_SUFFIX # post) \<noteq> None"
proof -
  from digits_then_suffix_complete [OF assms(2), of post] obtain ds' where
    "digits_then_suffix dec (ds @ SCORE_SUFFIX # post) = Some ds'" "length ds \<le> length ds'"
    by blast
  with assms(1) show ?thesis
    by (auto simp: score_match_at_def startswith_def)
qed

lemma score_search_complete:
  assumes "has_marker dec s ds"
  shows "score_search dec s \<noteq> None"
proof -
  from assms obtain pre post where ne: "ds \<noteq> []" and dg: "list_all (isdigit dec) ds"
    and s: "s = pre @ SCORE_PREFIX @ ds @ SCORE_SUFFIX # post"
    unfolding has_marker_def by blast
  have "score_search dec (pre @ SCORE_PREFIX @ ds @ SCORE_SUFFIX # post) \<noteq> None"
  proof (induction pre)
    case Nil
    obtain c cs where cc: "SCORE_PREFIX @ ds @ SCORE_SUFFIX # post = c # cs"
      by (cases "SCORE_PREFIX @ ds @ SCORE_SUFFIX # post") auto
    from score_match_at_complete [OF ne dg, of post] cc show ?case
      by (auto split: option.splits)
  next
    case (Cons a pre)
    then show ?case by (auto split: option.splits)
  qed
  with s show ?thesis by simp
qed

lemma llm_failure_fields:
  "llm_try w t a i = Inl msg \<Longrightarrow>
     call_llm_for_summary w t a i = \<lparr>summary = SUMMARY_FAILED, score = 0, error = msg\<rparr>"
  by (simp add: call_llm_for_summary_def)

lemma llm_success_cases:
  assumes "llm_try w t a i = Inr r"
  shows "call_llm_for_summary w t a i = r
    \<and> (\<exists>body content. llm_post w t a i = Reply 200 body \<and> json_content w body = Inr content
         \<and> summary r = strip content \<and> error r = []
         \<and> (case score_search (todecimal w) (strip content) of
              None \<Rightarrow> score r = 0
            | Some ds \<Rightarrow> int_refuses w ds = None
                \<and> score r = (if 1 \<le> py_int (todecimal w) ds \<and> py_int (todecimal w) ds \<le> 5
                            then py_int (todecimal w) ds else 0)))"
  using assms
  by (auto simp: call_llm_for_summary_def llm_try_def Let_def
      split: http_reply.splits if_splits sum.splits option.splits)

lemma llm_result_cases:
  obtains (failed) msg where "llm_try w t a i = Inl msg"
      "call_llm_for_summary w t a i = \<lparr>summary = SUMMARY_FAILED, score = 0, error = msg\<rparr>"
  | (unscored) body content where "llm_post w t a i = Reply 200 body"
      "json_content w body = Inr content"
      "score_search (todecimal w) (strip content) = None"
      "summary (call_llm_for_summary w t a i) = strip content"
      "score (call_llm_for_summary w t a i) = 0"
  | (scored) body content ds where "llm_post w t a i = Reply 200 body"
      "json_content w body = Inr content"
      "score_search (todecimal w) (strip content) = Some ds"
      "int_refuses w ds = None"
      "summary (call_llm_for_summary w t a i) = strip content"
      "score (call_llm_for_summary w t a i) =
         (if 1 \<le> py_int (todecimal w) ds \<and> py_int (todecimal w) ds \<le> 5
          then py_int (todecimal w) ds else 0)"
proof (cases "llm_try w t a i")
  case (Inl msg)
  with llm_failure_fields [OF Inl] failed show ?thesis by blast
next
  case (Inr r)
  from llm_success_cases [OF Inr] obtain body content where
    c: "call_llm_for_summary w t a i = r" and
    p: "llm_post w t a i = Reply 200 body" "json_content w body = Inr content" and
    sm: "summary r = strip content" and
    sc: "case score_search (todecimal w) (strip content) of
              None \<Rightarrow> score r = 0
            | Some ds \<Rightarrow> int_refuses w ds = None
                \<and> score r = (if 1 \<le> py_int (todecimal w) ds \<and> py_int (todecimal w) ds \<le> 5
                            then py_int (todecimal w) ds else 0)"
    by blast
  show ?thesis
  proof (cases "score_search (todecimal w) (strip content)")
    case None
    with sc have "score r = 0" by simp
    with unscored [OF p None] c sm show ?thesis by simp
  next
    case (Some ds)
    with sc have "int_refuses w ds = None"
      "score r = (if 1 \<le> py_int (todecimal w) ds \<and> py_int (todecimal w) ds \<le> 5
                            then py_int (todecimal w) ds else 0)" by simp_all
    with scored [OF p Some] c sm show ?thesis by simp
  qed
qed

lemma score_range: "score (call_llm_for_summary w t a i) \<in> {0, 1, 2, 3, 4, 5}"
proof (cases rule: llm_result_cases [of w t a i])
  case (failed msg)
  then show ?thesis by simp
next
  case (unscored body content)
  then show ?thesis by simp
next
  case (scored body content ds)
  have "(if 1 \<le> x \<and> x \<le> 5 then x else 0) \<in> {0, 1, 2, 3, 4, 5}" for x :: int
  proof (cases "1 \<le> x \<and> x \<le> 5")
    case True
    then have "x = 1 \<or> x = 2 \<or> x = 3 \<or> x = 4 \<or> x = 5" by arith
    with True show ?thesis by auto
  next
    case False
    show ?thesis by (subst if_not_P [OF False]) simp
  qed
  with scored(6) show ?thesis by metis
qed

lemma score_failed: "isl (llm_try w t a i) \<Longrightarrow> score (call_llm_for_summary w t a i) = 0"
  by (cases rule: llm_result_cases [of w t a i]) (simp_all add: llm_try_def Let_def)

lemma score_no_marker:
  assumes "\<forall>ds. \<not> has_marker (todecimal w) (summary (call_llm_for_summary w t a i)) ds"
  shows "score (call_llm_for_summary w t a i) = 0"
proof (cases rule: llm_result_cases [of w t a i])
  case (failed msg)
  then show ?thesis by simp
next
  case (unscored body content)
  then show ?thesis by simp
next
  case (scored body content ds)
  from score_search_sound [OF scored(3)] scored(5) assms show ?thesis by simp
qed

lemma score_nonzero:
  assumes "score (call_llm_for_summary w t a i) \<noteq> 0"
  shows "\<exists>ds. has_marker (todecimal w) (summary (call_llm_for_summary w t a i)) ds
              \<and> score (call_llm_for_summary w t a i) = py_int (todecimal w) ds"
proof (cases rule: llm_result_cases [of w t a i])
  case (failed msg)
  with assms show ?thesis by simp
next
  case (unscored body content)
  with assms show ?thesis by simp
next
  case (scored body content ds)
  from assms scored(6) have "score (call_llm_for_summary w t a i) = py_int (todecimal w) ds"
    by (simp split: if_splits)
  with score_search_sound [OF scored(3)] scored(5) show ?thesis by auto
qed

lemma score_found:
  assumes "llm_post w t a i = Reply 200 body" "json_content w body = Inr content"
    "score_search (todecimal w) (strip content) = Some ds" "int_refuses w ds = None"
  shows "summary (call_llm_for_summary w t a i) = strip content
       \<and> score (call_llm_for_summary w t a i) =
           (if 1 \<le> py_int (todecimal w) ds \<and> py_int (todecimal w) ds \<le> 5
            then py_int (todecimal w) ds else 0)"
  using assms by (simp add: call_llm_for_summary_def llm_try_def Let_def)

lemma marker_at_has_marker:
  assumes "marker_at dec s k ds"
  shows "has_marker dec s ds"
proof -
  from assms have ne: "ds \<noteq> []" and dg: "list_all (isdigit dec) ds"
    and sw: "startswith (drop k s) (SCORE_PREFIX @ ds @ [SCORE_SUFFIX])"
    unfolding marker_at_def by blast+
  from startswith_append [OF sw] obtain post where
    "drop k s = SCORE_PREFIX @ ds @ SCORE_SUFFIX # post" by auto
  then have "s = take k s @ SCORE_PREFIX @ ds @ SCORE_SUFFIX # post"
    by (metis append_take_drop_id)
  with ne dg show ?thesis unfolding has_marker_def by blast
qed

lemma marker_at_Suc: "marker_at dec (c # cs) (Suc k) ds = marker_at dec cs k ds"
  by (simp add: marker_at_def)

lemma marker_at_0:
  "marker_at dec s 0 ds =
     (ds \<noteq> [] \<and> list_all (isdigit dec) ds
      \<and> (\<exists>post. s = SCORE_PREFIX @ ds @ SCORE_SUFFIX # post))"
proof -
  have "startswith s (SCORE_PREFIX @ ds @ [SCORE_SUFFIX])
          = (\<exists>post. s = SCORE_PREFIX @ ds @ SCORE_SUFFIX # post)"
  proof
    assume "startswith s (SCORE_PREFIX @ ds @ [SCORE_SUFFIX])"
    from startswith_append [OF this] show "\<exists>post. s = SCORE_PREFIX @ ds @ SCORE_SUFFIX # post"
      by auto
  next
    assume "\<exists>post. s = SCORE_PREFIX @ ds @ SCORE_SUFFIX # post"
    then show "startswith s (SCORE_PREFIX @ ds @ [SCORE_SUFFIX])"
      by (auto simp: startswith_def)
  qed
  then show ?thesis by (simp add: marker_at_def)
qed

lemma digits_then_suffix_longest:
  assumes "digits_then_suffix dec s = Some ds" and "list_all (isdigit dec) ds'"
    and "s = ds' @ SCORE_SUFFIX # rest"
  shows "length ds' \<le> length ds"
  using digits_then_suffix_complete [OF assms(2), of rest] assms(1) assms(3) by auto

lemma score_match_at_longest:
  assumes "score_match_at dec s = Some ds" and "marker_at dec s 0 ds'"
  shows "length ds' \<le> length ds"
proof -
  from assms(1) have d: "digits_then_suffix dec (drop (length SCORE_PREFIX) s) = Some ds"
    by (auto simp: score_match_at_def split: if_splits option.splits)
  from assms(2) obtain post where dg: "list_all (isdigit dec) ds'"
    and s: "s = SCORE_PREFIX @ ds' @ SCORE_SUFFIX # post"
    unfolding marker_at_0 by blast
  from s have "drop (length SCORE_PREFIX) s = ds' @ SCORE_SUFFIX # post" by simp
  from digits_then_suffix_longest [OF d dg this] show ?thesis .
qed

lemma score_match_at_marker:
  assumes "score_match_at dec s = Some ds"
  shows "marker_at dec s 0 ds"
  using score_match_at_sound [OF assms] unfolding marker_at_0 .

lemma score_match_at_None:
  assumes "score_match_at dec s = None"
  shows "\<not> marker_at dec s 0 ds"
proof
  assume "marker_at dec s 0 ds"
  then obtain post where "ds \<noteq> []" "list_all (isdigit dec) ds"
    "s = SCORE_PREFIX @ ds @ SCORE_SUFFIX # post"
    unfolding marker_at_0 by blast
  with score_match_at_complete [of ds dec post] assms show False by simp
qed

lemma score_search_leftmost:
  "score_search dec s = Some ds \<Longrightarrow> leftmost_marker dec s ds"
proof (induction s)
  case Nil
  then show ?case by simp
next
  case (Cons c cs)
  show ?case
  proof (cases "score_match_at dec (c # cs)")
    case (Some ds0)
    with Cons.prems have e: "ds0 = ds" by simp
    from score_match_at_marker [OF Some] e have m: "marker_at dec (c # cs) 0 ds" by simp
    from score_match_at_longest [OF Some] e
    have l: "\<forall>ds'. marker_at dec (c # cs) 0 ds' \<longrightarrow> length ds' \<le> length ds" by blast
    from m l show ?thesis unfolding leftmost_marker_def by (intro exI [of _ 0]) simp
  next
    case None
    with Cons.prems have "score_search dec cs = Some ds" by simp
    from Cons.IH [OF this] obtain k where m: "marker_at dec cs k ds"
      and f: "\<forall>j<k. \<forall>ds'. \<not> marker_at dec cs j ds'"
      and l: "\<forall>ds'. marker_at dec cs k ds' \<longrightarrow> length ds' \<le> length ds"
      unfolding leftmost_marker_def by blast
    have f': "\<forall>j<Suc k. \<forall>ds'. \<not> marker_at dec (c # cs) j ds'"
    proof (intro allI impI)
      fix j ds'
      assume j: "j < Suc k"
      show "\<not> marker_at dec (c # cs) j ds'"
      proof (cases j)
        case 0
        with score_match_at_None [OF None] show ?thesis by simp
      next
        case (Suc j')
        with j f show ?thesis by (simp add: marker_at_Suc)
      qed
    qed
    from m l f' show ?thesis
      unfolding leftmost_marker_def by (intro exI [of _ "Suc k"]) (simp add: marker_at_Suc)
  qed
qed

lemma marker_at_digits:
  assumes "marker_at dec s k ds"
  shows "ds = take (length ds) (drop (length SCORE_PREFIX) (drop k s))"
proof -
  from assms have "startswith (drop k s) (SCORE_PREFIX @ ds @ [SCORE_SUFFIX])"
    unfolding marker_at_def by blast
  from startswith_append [OF this] obtain post where
    "drop k s = SCORE_PREFIX @ ds @ SCORE_SUFFIX # post" by auto
  then show ?thesis by simp
qed

lemma leftmost_marker_unique:
  assumes "leftmost_marker dec s ds" and "leftmost_marker dec s ds'"
  shows "ds = ds'"
proof -
  from assms(1) obtain k where m: "marker_at dec s k ds"
    and f: "\<forall>j<k. \<forall>x. \<not> marker_at dec s j x"
    and l: "\<forall>x. marker_at dec s k x \<longrightarrow> length x \<le> length ds"
    unfolding leftmost_marker_def by blast
  from assms(2) obtain k' where m': "marker_at dec s k' ds'"
    and f': "\<forall>j<k'. \<forall>x. \<not> marker_at dec s j x"
    and l': "\<forall>x. marker_at dec s k' x \<longrightarrow> length x \<le> length ds'"
    unfolding leftmost_marker_def by blast
  have k: "k = k'"
  proof (rule linorder_cases [of k k'])
    assume "k < k'"
    with f' m show ?thesis by blast
  next
    assume "k = k'"
    then show ?thesis .
  next
    assume "k' < k"
    with f m' show ?thesis by blast
  qed
  from l m' k have "length ds' \<le> length ds" by blast
  moreover from l' m k have "length ds \<le> length ds'" by blast
  ultimately have n: "length ds = length ds'" by simp
  from marker_at_digits [OF m] marker_at_digits [OF m'] k n show ?thesis by metis
qed

lemma leftmost_marker_found:
  assumes "leftmost_marker dec s ds"
  shows "score_search dec s = Some ds"
proof -
  from assms obtain k where "marker_at dec s k ds" unfolding leftmost_marker_def by blast
  from score_search_complete [OF marker_at_has_marker [OF this]] obtain ds0 where
    s: "score_search dec s = Some ds0" by blast
  from leftmost_marker_unique [OF score_search_leftmost [OF s] assms] s show ?thesis by simp
qed

lemma score_no_connection:
  "llm_post w t a i = ConnectionFailed msg \<Longrightarrow> score (call_llm_for_summary w t a i) = 0"
  by (simp add: call_llm_for_summary_def llm_try_def)

lemma score_bad_status:
  "llm_post w t a i = Reply status body \<Longrightarrow> status \<noteq> 200 \<Longrightarrow>
     score (call_llm_for_summary w t a i) = 0"
  by (simp add: call_llm_for_summary_def llm_try_def)

lemma score_undecodable:
  "llm_post w t a i = Reply 200 body \<Longrightarrow> json_content w body = Inl msg \<Longrightarrow>
     score (call_llm_for_summary w t a i) = 0"
  by (simp add: call_llm_for_summary_def llm_try_def)

lemma score_int_refused:
  assumes "llm_post w t a i = Reply 200 body" "json_content w body = Inr content"
    "leftmost_marker (todecimal w) (strip content) ds" "int_refuses w ds = Some msg"
  shows "score (call_llm_for_summary w t a i) = 0"
  using assms(1,2,4) leftmost_marker_found [OF assms(3)]
  by (simp add: call_llm_for_summary_def llm_try_def Let_def)

lemma score_leftmost:
  assumes "llm_post w t a i = Reply 200 body" "json_content w body = Inr content"
    "leftmost_marker (todecimal w) (strip content) ds" "int_refuses w ds = None"
  shows "summary (call_llm_for_summary w t a i) = strip content
       \<and> score (call_llm_for_summary w t a i) =
           (if 1 \<le> py_int (todecimal w) ds \<and> py_int (todecimal w) ds \<le> 5
            then py_int (todecimal w) ds else 0)"
  using score_found [OF assms(1) assms(2) leftmost_marker_found [OF assms(3)] assms(4)] .

lemma score_nonzero_leftmost:
  assumes "score (call_llm_for_summary w t a i) \<noteq> 0"
  shows "\<exists>ds. leftmost_marker (todecimal w) (summary (call_llm_for_summary w t a i)) ds
              \<and> score (call_llm_for_summary w t a i) = py_int (todecimal w) ds"
proof (cases rule: llm_result_cases [of w t a i])
  case (failed msg)
  with assms show ?thesis by simp
next
  case (unscored body content)
  with assms show ?thesis by simp
next
  case (scored body content ds)
  from assms scored(6) have "score (call_llm_for_summary w t a i) = py_int (todecimal w) ds"
    by (simp split: if_splits)
  with score_search_leftmost [OF scored(3)] scored(5) show ?thesis by auto
qed

text \<open>
  C6, as the code has it: the score of a summarizer call is one of 0, 1, 2, 3, 4, 5. It
  is 0 when the call fails: when the service cannot be reached, answers with a status
  other than 200 or with a body that cannot be decoded, and when \<^verbatim>\<open>int\<close> refuses the
  digits of the marker. It is 0 when the summary holds no score marker. When the reply
  is decoded, the summary is its stripped text and the score is decided by the leftmost
  marker of the summary alone: it is the value of that marker if the value lies between 1
  and 5, and 0 otherwise. A score other than 0 is the value of the leftmost marker.
\<close>

theorem score_bounds:
  "score (call_llm_for_summary w t a i) \<in> {0, 1, 2, 3, 4, 5}
   \<and> (isl (llm_try w t a i) \<longrightarrow> score (call_llm_for_summary w t a i) = 0)
   \<and> (\<forall>msg. llm_post w t a i = ConnectionFailed msg
         \<longrightarrow> score (call_llm_for_summary w t a i) = 0)
   \<and> (\<forall>status body. llm_post w t a i = Reply status body \<and> status \<noteq> 200
         \<longrightarrow> score (call_llm_for_summary w t a i) = 0)
   \<and> (\<forall>body msg. llm_post w t a i = Reply 200 body \<and> json_content w body = Inl msg
         \<longrightarrow> score (call_llm_for_summary w t a i) = 0)
   \<and> (\<forall>body content ds msg.
        llm_post w t a i = Reply 200 body \<and> json_content w body = Inr content
        \<and> leftmost_marker (todecimal w) (strip content) ds \<and> int_refuses w ds = Some msg
        \<longrightarrow> score (call_llm_for_summary w t a i) = 0)
   \<and> ((\<forall>ds. \<not> has_marker (todecimal w) (summary (call_llm_for_summary w t a i)) ds)
        \<longrightarrow> score (call_llm_for_summary w t a i) = 0)
   \<and> (score (call_llm_for_summary w t a i) \<noteq> 0 \<longrightarrow>
        (\<exists>ds. leftmost_marker (todecimal w) (summary (call_llm_for_summary w t a i)) ds
              \<and> score (call_llm_for_summary w t a i) = py_int (todecimal w) ds))
   \<and> (\<forall>body content ds.
        llm_post w t a i = Reply 200 body \<and> json_content w body = Inr content
        \<and> leftmost_marker (todecimal w) (strip content) ds \<and> int_refuses w ds = None
        \<longrightarrow> summary (call_llm_for_summary w t a i) = strip content
            \<and> score (call_llm_for_summary w t a i) =
                (if 1 \<le> py_int (todecimal w) ds \<and> py_int (todecimal w) ds \<le> 5
                 then py_int (todecimal w) ds else 0))"
proof (intro conjI impI allI)
  show "score (call_llm_for_summary w t a i) \<in> {0, 1, 2, 3, 4, 5}"
    by (rule score_range)
next
  assume "isl (llm_try w t a i)"
  then show "score (call_llm_for_summary w t a i) = 0" by (rule score_failed)
next
  fix msg
  assume "llm_post w t a i = ConnectionFailed msg"
  then show "score (call_llm_for_summary w t a i) = 0" by (rule score_no_connection)
next
  fix status body
  assume "llm_post w t a i = Reply status body \<and> status \<noteq> 200"
  then show "score (call_llm_for_summary w t a i) = 0" using score_bad_status by blast
next
  fix body msg
  assume "llm_post w t a i = Reply 200 body \<and> json_content w body = Inl msg"
  then show "score (call_llm_for_summary w t a i) = 0" using score_undecodable by blast
next
  fix body content ds msg
  assume "llm_post w t a i = Reply 200 body \<and> json_content w body = Inr content
        \<and> leftmost_marker (todecimal w) (strip content) ds \<and> int_refuses w ds = Some msg"
  then show "score (call_llm_for_summary w t a i) = 0" using score_int_refused by blast
next
  assume "\<forall>ds. \<not> has_marker (todecimal w) (summary (call_llm_for_summary w t a i)) ds"
  then show "score (call_llm_for_summary w t a i) = 0" by (rule score_no_marker)
next
  assume "score (call_llm_for_summary w t a i) \<noteq> 0"
  then show "\<exists>ds. leftmost_marker (todecimal w) (summary (call_llm_for_summary w t a i)) ds
              \<and> score (call_llm_for_summary w t a i) = py_int (todecimal w) ds"
    by (rule score_nonzero_leftmost)
next
  fix body content ds
  assume h: "llm_post w t a i = Reply 200 body \<and> json_content w body = Inr content
        \<and> leftmost_marker (todecimal w) (strip content) ds \<and> int_refuses w ds = None"
  from h score_leftmost [of w t a i body content ds]
  show "summary (call_llm_for_summary w t a i) = strip content" by blast
  from h score_leftmost [of w t a i body content ds]
  show "score (call_llm_for_summary w t a i) =
                (if 1 \<le> py_int (todecimal w) ds \<and> py_int (todecimal w) ds \<le> 5
                 then py_int (todecimal w) ds else 0)" by blast
qed

lemma four_then_nine_leftmost:
  "leftmost_marker ascii_decimal (strip four_then_nine) [52]"
proof -
  have "score_search ascii_decimal (strip four_then_nine) = Some [52]"
    by (simp add: four_then_nine_def strip_def isspace_def SCORE_PREFIX_def
        SCORE_SUFFIX_def score_match_at_def startswith_def isdigit_def ascii_decimal_def
        ascii_def)
  then show ?thesis by (rule score_search_leftmost)
qed

text \<open>
  C6, witness: a reply in which the marker of score 4 comes first and a marker of score 9
  follows is scored 4; a reply with the status 500 is scored 0, and so is a call that
  cannot connect.
\<close>

theorem score_bounds_witness:
  "score (call_llm_for_summary four_world [] [] []) = 4
   \<and> score (call_llm_for_summary failing_world [] [] []) = 0
   \<and> score (call_llm_for_summary offline_world [] [] []) = 0"
proof -
  have p: "llm_post four_world [] [] [] = Reply 200 four_then_nine"
    by (simp add: four_world_def offline_world_def)
  have j: "json_content four_world four_then_nine = Inr four_then_nine"
    by (simp add: four_world_def offline_world_def)
  have m: "leftmost_marker (todecimal four_world) (strip four_then_nine) [52]"
    using four_then_nine_leftmost by (simp add: four_world_def offline_world_def)
  have r: "int_refuses four_world [52] = None"
    by (simp add: four_world_def offline_world_def)
  have v: "py_int (todecimal four_world) [52] = 4"
    by (simp add: py_int_def four_world_def offline_world_def ascii_decimal_def)
  note c9 = score_bounds [of four_world "[]" "[]" "[]", THEN conjunct2, THEN conjunct2,
      THEN conjunct2, THEN conjunct2, THEN conjunct2, THEN conjunct2, THEN conjunct2,
      THEN conjunct2, rule_format, of four_then_nine four_then_nine "[52]"]
  from c9 [OF conjI [OF p conjI [OF j conjI [OF m r]]]] v
  have a: "score (call_llm_for_summary four_world [] [] []) = 4" by simp
  have q: "llm_post failing_world [] [] [] = Reply 500 (SCORE_PREFIX @ [52, SCORE_SUFFIX])"
    by (simp add: failing_world_def offline_world_def)
  note c4 = score_bounds [of failing_world "[]" "[]" "[]", THEN conjunct2, THEN conjunct2,
      THEN conjunct2, THEN conjunct1, rule_format,
      of 500 "SCORE_PREFIX @ [52, SCORE_SUFFIX]"]
  from c4 q have b: "score (call_llm_for_summary failing_world [] [] []) = 0" by simp
  have o: "llm_post offline_world [] [] [] = ConnectionFailed (ascii ''timed out'')"
    by (simp add: offline_world_def)
  from score_bounds [of offline_world "[]" "[]" "[]", THEN conjunct2, THEN conjunct2,
      THEN conjunct1, rule_format, OF o]
  have c: "score (call_llm_for_summary offline_world [] [] []) = 0" .
  from a b c show ?thesis by simp
qed

text \<open>
  C6 as stated fails where the summary holds more than one marker: with a marker of
  score 9 followed by a marker of score 3, a marker whose value lies between 1 and 5 is
  present in the summary (at position 5), and the score is 0.
\<close>

theorem later_marker_counterexample:
  "summary (call_llm_for_summary two_marker_world [] [] []) = nine_then_three
   \<and> marker_at (todecimal two_marker_world) nine_then_three 5 [51]
   \<and> py_int (todecimal two_marker_world) [51] = 3
   \<and> score (call_llm_for_summary two_marker_world [] [] []) = 0"
  by (simp add: call_llm_for_summary_def llm_try_def Let_def two_marker_world_def
      offline_world_def nine_then_three_def strip_def isspace_def SCORE_PREFIX_def
      SCORE_SUFFIX_def score_match_at_def startswith_def isdigit_def ascii_decimal_def
      marker_at_def py_int_def)

subsection \<open>The archive\<close>

lemma bucket_has_iff: "bucket_has papers l = (l \<in> arxiv_html_link ` set papers)"
  by (induction papers) auto

lemma is_duplicate_iff: "is_duplicate A l = (l \<in> set (identifiers A))"
  by (induction A) (auto simp: identifiers_def entries_def bucket_has_iff)

lemma extend_bucket_Nil [simp]: "extend_bucket d [] A = A"
  by (induction A) auto

lemma extend_bucket_twice:
  "extend_bucket d n2 (extend_bucket d n1 A) = extend_bucket d (n1 @ n2) A"
  by (induction A) auto

lemma extend_bucket_keys [simp]: "map fst (extend_bucket d new A) = map fst A"
  by (induction A) auto

lemma map_of_extend_other: "d' \<noteq> d \<Longrightarrow> map_of (extend_bucket d new A) d' = map_of A d'"
  by (induction A) auto

lemma map_of_extend_same:
  "map_of (extend_bucket d new A) d = map_option (\<lambda>papers. papers @ new) (map_of A d)"
  by (induction A) auto

lemma bucket_extend_same:
  "map_of A d \<noteq> None \<Longrightarrow> bucket (extend_bucket d new A) d = bucket A d @ new"
  by (auto simp: bucket_def map_of_extend_same)

lemma total_extend:
  "map_of A d \<noteq> None \<Longrightarrow> total_papers (extend_bucket d new A) = total_papers A + length new"
  by (induction A) (auto simp: total_papers_def)

lemma identifiers_Cons:
  "identifiers ((k, papers) # rest) = map arxiv_html_link papers @ identifiers rest"
  by (simp add: identifiers_def entries_def)

lemma identifiers_extend_subset:
  "set (identifiers A) \<subseteq> set (identifiers (extend_bucket d new A))"
  by (induction A) (auto simp: identifiers_Cons)

lemma append_paper_extend: "append_paper d p A = Inr A' \<Longrightarrow> A' = extend_bucket d [p] A"
  by (induction A arbitrary: A') (auto split: if_splits sum.splits)

lemma append_paper_member:
  "append_paper d p A = Inr A' \<Longrightarrow> arxiv_html_link p \<in> set (identifiers A')"
  by (induction A arbitrary: A') (auto simp: identifiers_Cons split: if_splits sum.splits)

lemma append_paper_identifiers:
  "append_paper d p A = Inr A' \<Longrightarrow>
   set (identifiers A') = insert (arxiv_html_link p) (set (identifiers A))"
  by (induction A arbitrary: A') (auto simp: identifiers_Cons split: if_splits sum.splits)

lemma append_paper_distinct:
  "append_paper d p A = Inr A' \<Longrightarrow> arxiv_html_link p \<notin> set (identifiers A) \<Longrightarrow>
   distinct (identifiers A) \<Longrightarrow> distinct (identifiers A')"
proof (induction A arbitrary: A')
  case Nil
  then show ?case by simp
next
  case (Cons kv A)
  obtain k papers where kv: "kv = (k, papers)" by (cases kv)
  show ?case
  proof (cases "k = d")
    case True
    with Cons.prems kv show ?thesis by (auto simp: identifiers_Cons)
  next
    case False
    with Cons.prems(1) kv obtain R where r: "append_paper d p A = Inr R"
      and a: "A' = (k, papers) # R" by (auto split: sum.splits)
    from Cons.prems kv have "arxiv_html_link p \<notin> set (identifiers A)"
      "distinct (identifiers A)" by (auto simp: identifiers_Cons)
    from Cons.IH [OF r this] have dr: "distinct (identifiers R)" .
    from append_paper_identifiers [OF r]
    have sr: "set (identifiers R) = insert (arxiv_html_link p) (set (identifiers A))" .
    from Cons.prems kv dr sr a show ?thesis by (auto simp: identifiers_Cons)
  qed
qed

lemma append_paper_present:
  "map_of A d \<noteq> None \<Longrightarrow> \<exists>A'. append_paper d p A = Inr A'"
  by (induction A) auto

lemma map_of_ensure_date: "map_of (ensure_date d A) d \<noteq> None"
  by (simp add: ensure_date_def map_add_def)

lemma identifiers_ensure_date [simp]: "identifiers (ensure_date d A) = identifiers A"
  by (simp add: ensure_date_def identifiers_def entries_def)

lemma total_ensure_date [simp]: "total_papers (ensure_date d A) = total_papers A"
  by (simp add: ensure_date_def total_papers_def)

lemma map_of_ensure_other: "d' \<noteq> d \<Longrightarrow> map_of (ensure_date d A) d' = map_of A d'"
  by (auto simp: ensure_date_def map_add_def split: option.splits)

lemma bucket_ensure_date [simp]: "bucket (ensure_date d A) d' = bucket A d'"
  by (auto simp: ensure_date_def bucket_def map_add_def split: option.splits)

subsection \<open>Absolute identifiers\<close>

lemma dropWhile_strip: "dropWhile isspace (strip h) = strip h"
proof (cases "dropWhile isspace h")
  case Nil
  show ?thesis unfolding strip_def Nil by simp
next
  case (Cons x xs)
  then have nx: "\<not> isspace x" by (metis dropWhile_eq_Cons_conv)
  have "dropWhile isspace (rev (x # xs)) = dropWhile isspace (rev xs) @ [x]"
    using nx by (simp add: dropWhile_append3)
  then have "strip h = x # rev (dropWhile isspace (rev xs))"
    using Cons by (simp add: strip_def)
  with nx show ?thesis by simp
qed

lemma absolute_url_nonempty: "is_absolute_url url \<Longrightarrow> url \<noteq> []"
  by (auto simp: is_absolute_url_def startswith_def lower_def ascii_def)

lemma starts_ARXIV: "is_absolute_url (ARXIV @ rest)"
  by (simp add: is_absolute_url_def startswith_def lower_def ARXIV_def ascii_def)

lemma requests_can_send_absolute:
  "requests_can_send (absolute (strip h)) \<Longrightarrow> is_absolute_url (absolute (strip h))"
proof (cases "startswith (strip h) (ascii ''/'')")
  case True
  then show ?thesis by (simp add: absolute_def starts_ARXIV)
next
  case False
  assume "requests_can_send (absolute (strip h))"
  with False show ?thesis
    by (simp add: absolute_def requests_can_send_def dropWhile_strip is_absolute_url_def)
qed

lemma titled_link_fetched:
  assumes "titled_link dt ttl = Some l" "get_arxiv_soup w l = Some soup"
  shows "is_absolute_url l"
proof -
  from assms(1) obtain h where "l = absolute (strip h)"
    by (auto simp: titled_link_def split: option.splits)
  moreover from assms(2) have "requests_can_send l"
    by (simp add: get_arxiv_soup_def split: if_splits)
  ultimately show ?thesis using requests_can_send_absolute by simp
qed

lemma assemble_link [simp]:
  "arxiv_html_link (assemble w t dt m l soup intro) = l"
  by (simp add: assemble_def Let_def)

subsection \<open>One item of a listing\<close>

lemma process_item_no_link:
  "titled_link dt (ascii ''View HTML'') = None \<Longrightarrow>
   process_item w d t pg n i dt dd s =
     Inr (s\<lparr>trace := trace s @ [Log INFO (Processing pg i n), Log WARNING NoHtmlLink]\<rparr>)"
  by (simp add: process_item_def Let_def emit_def)

lemma process_item_duplicate:
  "titled_link dt (ascii ''View HTML'') = Some l \<Longrightarrow> is_duplicate (all_papers_global s) l \<Longrightarrow>
   process_item w d t pg n i dt dd s =
     Inr (s\<lparr>trace := trace s @ [Log INFO (Processing pg i n), Log INFO (AlreadyCrawled l)]\<rparr>)"
  by (simp add: process_item_def Let_def emit_def)

lemma process_item_no_detail:
  "titled_link dt (ascii ''View HTML'') = Some l \<Longrightarrow> \<not> is_duplicate (all_papers_global s) l \<Longrightarrow>
   get_arxiv_soup w l = None \<Longrightarrow>
   process_item w d t pg n i dt dd s =
     Inr (s\<lparr>trace := trace s @ [Log INFO (Processing pg i n), Log WARNING (DetailFetchFailed l)]\<rparr>)"
  by (simp add: process_item_def Let_def emit_def)

lemma process_item_no_meta:
  "titled_link dt (ascii ''View HTML'') = Some l \<Longrightarrow> \<not> is_duplicate (all_papers_global s) l \<Longrightarrow>
   get_arxiv_soup w l = Some soup \<Longrightarrow>
   find dd [ascii ''div''] (has_class (ascii ''meta'')) = None \<Longrightarrow>
   process_item w d t pg n i dt dd s =
     Inr (s\<lparr>trace := trace s @ [Log INFO (Processing pg i n), Log WARNING (NoMeta l)]\<rparr>)"
  by (simp add: process_item_def Let_def emit_def)

lemma process_item_raised:
  "titled_link dt (ascii ''View HTML'') = Some l \<Longrightarrow> \<not> is_duplicate (all_papers_global s) l \<Longrightarrow>
   get_arxiv_soup w l = Some soup \<Longrightarrow>
   find dd [ascii ''div''] (has_class (ascii ''meta'')) = Some m \<Longrightarrow>
   extract_introduction soup = Inl e \<Longrightarrow>
   process_item w d t pg n i dt dd s =
     Inl (e, s\<lparr>trace := trace s @ [Log INFO (Processing pg i n)]\<rparr>)"
  by (simp add: process_item_def Let_def emit_def)

lemma process_item_key_error:
  "titled_link dt (ascii ''View HTML'') = Some l \<Longrightarrow> \<not> is_duplicate (all_papers_global s) l \<Longrightarrow>
   get_arxiv_soup w l = Some soup \<Longrightarrow>
   find dd [ascii ''div''] (has_class (ascii ''meta'')) = Some m \<Longrightarrow>
   extract_introduction soup = Inr intro \<Longrightarrow>
   append_paper d (assemble w t dt m l soup intro) (all_papers_global s) = Inl e \<Longrightarrow>
   process_item w d t pg n i dt dd s =
     Inl (e, s\<lparr>trace := trace s @ [Log INFO (Processing pg i n)]\<rparr>)"
  by (simp add: process_item_def Let_def emit_def)

lemma process_item_appended:
  "titled_link dt (ascii ''View HTML'') = Some l \<Longrightarrow> \<not> is_duplicate (all_papers_global s) l \<Longrightarrow>
   get_arxiv_soup w l = Some soup \<Longrightarrow>
   find dd [ascii ''div''] (has_class (ascii ''meta'')) = Some m \<Longrightarrow>
   extract_introduction soup = Inr intro \<Longrightarrow>
   append_paper d (assemble w t dt m l soup intro) (all_papers_global s) = Inr A' \<Longrightarrow>
   process_item w d t pg n i dt dd s =
     Inr (s\<lparr>all_papers_global := A',
            trace := trace s @ [Log INFO (Processing pg i n),
                                Log INFO (Completed pg i
                                  (take 30 (title (assemble w t dt m l soup intro))))]\<rparr>)"
  by (simp add: process_item_def Let_def emit_def)

lemma process_item_cases:
  obtains
    (no_link) "titled_link dt (ascii ''View HTML'') = None"
      "process_item w d t pg n i dt dd s =
         Inr (s\<lparr>trace := trace s @ [Log INFO (Processing pg i n), Log WARNING NoHtmlLink]\<rparr>)"
  | (duplicate) l where "titled_link dt (ascii ''View HTML'') = Some l"
      "is_duplicate (all_papers_global s) l"
      "process_item w d t pg n i dt dd s =
         Inr (s\<lparr>trace := trace s @ [Log INFO (Processing pg i n), Log INFO (AlreadyCrawled l)]\<rparr>)"
  | (no_detail) l where "titled_link dt (ascii ''View HTML'') = Some l"
      "\<not> is_duplicate (all_papers_global s) l" "get_arxiv_soup w l = None"
      "process_item w d t pg n i dt dd s =
         Inr (s\<lparr>trace := trace s @ [Log INFO (Processing pg i n),
                                     Log WARNING (DetailFetchFailed l)]\<rparr>)"
  | (no_meta) l soup where "titled_link dt (ascii ''View HTML'') = Some l"
      "\<not> is_duplicate (all_papers_global s) l" "get_arxiv_soup w l = Some soup"
      "find dd [ascii ''div''] (has_class (ascii ''meta'')) = None"
      "process_item w d t pg n i dt dd s =
         Inr (s\<lparr>trace := trace s @ [Log INFO (Processing pg i n), Log WARNING (NoMeta l)]\<rparr>)"
  | (raised) l soup m e where "titled_link dt (ascii ''View HTML'') = Some l"
      "\<not> is_duplicate (all_papers_global s) l" "get_arxiv_soup w l = Some soup"
      "find dd [ascii ''div''] (has_class (ascii ''meta'')) = Some m"
      "extract_introduction soup = Inl e"
      "process_item w d t pg n i dt dd s =
         Inl (e, s\<lparr>trace := trace s @ [Log INFO (Processing pg i n)]\<rparr>)"
  | (key_error) l soup m intro e where "titled_link dt (ascii ''View HTML'') = Some l"
      "\<not> is_duplicate (all_papers_global s) l" "get_arxiv_soup w l = Some soup"
      "find dd [ascii ''div''] (has_class (ascii ''meta'')) = Some m"
      "extract_introduction soup = Inr intro"
      "append_paper d (assemble w t dt m l soup intro) (all_papers_global s) = Inl e"
      "process_item w d t pg n i dt dd s =
         Inl (e, s\<lparr>trace := trace s @ [Log INFO (Processing pg i n)]\<rparr>)"
  | (appended) l soup m intro A' where "titled_link dt (ascii ''View HTML'') = Some l"
      "\<not> is_duplicate (all_papers_global s) l" "get_arxiv_soup w l = Some soup"
      "find dd [ascii ''div''] (has_class (ascii ''meta'')) = Some m"
      "extract_introduction soup = Inr intro"
      "append_paper d (assemble w t dt m l soup intro) (all_papers_global s) = Inr A'"
      "process_item w d t pg n i dt dd s =
         Inr (s\<lparr>all_papers_global := A',
                trace := trace s @ [Log INFO (Processing pg i n),
                                    Log INFO (Completed pg i
                                      (take 30 (title (assemble w t dt m l soup intro))))]\<rparr>)"
proof (cases "titled_link dt (ascii ''View HTML'')")
  case None
  with no_link process_item_no_link show ?thesis by blast
next
  case (Some l)
  note l = Some
  show ?thesis
  proof (cases "is_duplicate (all_papers_global s) l")
    case True
    with duplicate process_item_duplicate l show ?thesis by blast
  next
    case False
    note nd = False
    show ?thesis
    proof (cases "get_arxiv_soup w l")
      case None
      with no_detail process_item_no_detail l nd show ?thesis by blast
    next
      case (Some soup)
      note soup = Some
      show ?thesis
      proof (cases "find dd [ascii ''div''] (has_class (ascii ''meta''))")
        case None
        with no_meta process_item_no_meta l nd soup show ?thesis by blast
      next
        case (Some m)
        note m = Some
        show ?thesis
        proof (cases "extract_introduction soup")
          case (Inl e)
          from raised [OF l nd soup m Inl] process_item_raised [OF l nd soup m Inl]
          show ?thesis by blast
        next
          case (Inr intro)
          note intro = Inr
          show ?thesis
          proof (cases "append_paper d (assemble w t dt m l soup intro) (all_papers_global s)")
            case (Inl e)
            from key_error [OF l nd soup m intro Inl]
              process_item_key_error [OF l nd soup m intro Inl]
            show ?thesis by blast
          next
            case (Inr A')
            from appended [OF l nd soup m intro Inr]
              process_item_appended [OF l nd soup m intro Inr]
            show ?thesis by blast
          qed
        qed
      qed
    qed
  qed
qed

subsection \<open>What a stretch of the run does to the state\<close>

lemma growsD:
  assumes "grows d s s' new"
  shows "all_papers_global s' = extend_bucket d new (all_papers_global s)"
    and "length (filter is_completed (trace s'))
          = length (filter is_completed (trace s)) + length new"
    and "list_all (\<lambda>p. is_absolute_url (arxiv_html_link p)) new"
    and "set (identifiers (all_papers_global s)) \<subseteq> set (identifiers (all_papers_global s'))"
    and "distinct (identifiers (all_papers_global s))
           \<Longrightarrow> distinct (identifiers (all_papers_global s'))"
  using assms unfolding grows_def by blast+

lemma grows_trans:
  assumes g1: "grows d s s' n1" and g2: "grows d s' s'' n2"
  shows "grows d s s'' (n1 @ n2)"
proof -
  have a: "all_papers_global s'' = extend_bucket d (n1 @ n2) (all_papers_global s)"
    using growsD(1) [OF g1] growsD(1) [OF g2] by (simp add: extend_bucket_twice)
  have c: "length (filter is_completed (trace s''))
          = length (filter is_completed (trace s)) + length (n1 @ n2)"
    using growsD(2) [OF g1] growsD(2) [OF g2] by simp
  have l: "list_all (\<lambda>p. is_absolute_url (arxiv_html_link p)) (n1 @ n2)"
    using growsD(3) [OF g1] growsD(3) [OF g2] by simp
  have i: "set (identifiers (all_papers_global s)) \<subseteq> set (identifiers (all_papers_global s''))"
    using growsD(4) [OF g1] growsD(4) [OF g2] by (rule subset_trans)
  have dd: "distinct (identifiers (all_papers_global s))
      \<longrightarrow> distinct (identifiers (all_papers_global s''))"
    using growsD(5) [OF g1] growsD(5) [OF g2] by blast
  from a c l i dd show ?thesis unfolding grows_def by (intro conjI)
qed

lemma grows_after:
  assumes g: "grows d s s' new" and a: "all_papers_global s'' = all_papers_global s'"
    and t: "filter is_completed (trace s'') = filter is_completed (trace s')"
  shows "grows d s s'' new"
  using g unfolding grows_def a t .

lemma grows_before:
  assumes g: "grows d s0 s' new" and a: "all_papers_global s0 = all_papers_global s"
    and t: "filter is_completed (trace s0) = filter is_completed (trace s)"
  shows "grows d s s' new"
  using g unfolding grows_def a t .

lemma grows_here: "grows d s s []"
  by (simp add: grows_def)

lemma process_item_grows:
  "\<exists>new. grows d s (item_state (process_item w d t pg n i dt dd s)) new"
proof (cases rule: process_item_cases [of dt w d t pg n i dd s])
  case no_link
  then have "grows d s (item_state (process_item w d t pg n i dt dd s)) []"
    by (simp add: grows_def item_state_def is_completed_def)
  then show ?thesis by blast
next
  case (duplicate l)
  then have "grows d s (item_state (process_item w d t pg n i dt dd s)) []"
    by (simp add: grows_def item_state_def is_completed_def)
  then show ?thesis by blast
next
  case (no_detail l)
  then have "grows d s (item_state (process_item w d t pg n i dt dd s)) []"
    by (simp add: grows_def item_state_def is_completed_def)
  then show ?thesis by blast
next
  case (no_meta l soup)
  then have "grows d s (item_state (process_item w d t pg n i dt dd s)) []"
    by (simp add: grows_def item_state_def is_completed_def)
  then show ?thesis by blast
next
  case (raised l soup m e)
  then have "grows d s (item_state (process_item w d t pg n i dt dd s)) []"
    by (simp add: grows_def item_state_def is_completed_def)
  then show ?thesis by blast
next
  case (key_error l soup m intro e)
  then have "grows d s (item_state (process_item w d t pg n i dt dd s)) []"
    by (simp add: grows_def item_state_def is_completed_def)
  then show ?thesis by blast
next
  case (appended l soup m intro A')
  let ?p = "assemble w t dt m l soup intro"
  have a: "A' = extend_bucket d [?p] (all_papers_global s)"
    using append_paper_extend [OF appended(6)] .
  have u: "is_absolute_url l" using titled_link_fetched [OF appended(1) appended(3)] .
  have nl: "l \<notin> set (identifiers (all_papers_global s))"
    using appended(2) by (simp add: is_duplicate_iff)
  have dd: "distinct (identifiers (all_papers_global s)) \<longrightarrow> distinct (identifiers A')"
    using append_paper_distinct [OF appended(6)] nl by simp
  have sub: "set (identifiers (all_papers_global s)) \<subseteq> set (identifiers A')"
    unfolding a by (rule identifiers_extend_subset)
  from appended(7) a u dd sub
  have "grows d s (item_state (process_item w d t pg n i dt dd s)) [?p]"
    by (simp add: grows_def item_state_def is_completed_def)
  then show ?thesis by blast
qed

lemma for_items_grows:
  "\<exists>new. grows d s (item_state (for_items w d t pg n i items s)) new"
proof (induction items arbitrary: s i)
  case Nil
  have "grows d s (item_state (for_items w d t pg n i [] s)) []"
    by (simp add: grows_def item_state_def)
  then show ?case by blast
next
  case (Cons it items)
  obtain dt dd where it: "it = (dt, dd)" by (cases it)
  from process_item_grows [of d s w t pg n i dt dd] obtain n1 where
    g1: "grows d s (item_state (process_item w d t pg n i dt dd s)) n1" by blast
  show ?case
  proof (cases "process_item w d t pg n i dt dd s")
    case (Inl es)
    with g1 it have "grows d s (item_state (for_items w d t pg n i (it # items) s)) n1"
      by simp
    then show ?thesis by blast
  next
    case (Inr s1)
    from Cons.IH [of s1 "i + 1"] obtain n2 where
      g2: "grows d s1 (item_state (for_items w d t pg n (i + 1) items s1)) n2" by blast
    from g1 Inr have "grows d s s1 n1" by (simp add: item_state_def)
    from grows_trans [OF this g2] Inr it
    have "grows d s (item_state (for_items w d t pg n i (it # items) s)) (n1 @ n2)" by simp
    then show ?thesis by blast
  qed
qed

subsection \<open>One page and the whole loop\<close>

lemma pair_up_zip:
  "zip (fst (fst (pair_up pg a b))) (snd (fst (pair_up pg a b))) = zip a b"
  by (simp add: pair_up_def Let_def take_zip [symmetric])

lemma pair_up_length:
  "length (fst (fst (pair_up pg a b))) = min (length a) (length b)"
  by (simp add: pair_up_def Let_def)

lemma pair_up_log:
  "snd (pair_up pg a b) =
     (if length a \<noteq> length b then [Log WARNING (Mismatch pg (min (length a) (length b)))] else [])"
  by (simp add: pair_up_def Let_def)

lemma page_items_zip:
  "page_items dl =
     zip (find_all dl [ascii ''dt''] any_tag) (find_all dl [ascii ''dd''] any_tag)"
  by (simp add: page_items_def Let_def pair_up_zip)

lemma crawl_page_items:
  assumes "\<not> max_pages_reached mp pg" "get_arxiv_soup w url = Some list_soup"
    "find list_soup [ascii ''dl''] (attr_is (ascii ''id'') (ascii ''articles'')) = Some dl"
  shows "crawl_page w d mp url pg s =
     (case for_items w d (datetime_now w pg) pg
             (min (length (find_all dl [ascii ''dt''] any_tag))
                  (length (find_all dl [ascii ''dd''] any_tag)))
             1 (page_items dl)
             (s\<lparr>trace := trace s @ Log INFO (PageStart pg url)
                       # snd (pair_up pg (find_all dl [ascii ''dt''] any_tag)
                                (find_all dl [ascii ''dd''] any_tag))\<rparr>) of
        Inl (e, s2) \<Rightarrow> Raised e s2
      | Inr s2 \<Rightarrow>
          (case next_page_url list_soup of
             None \<Rightarrow> Stopped (emit (Log INFO NoNextPage) (save_page w pg s2))
           | Some next_url \<Rightarrow> Continue next_url (save_page w pg s2)))"
  using assms
  by (simp add: crawl_page_def Let_def emit_def page_items_zip pair_up_zip pair_up_length
      split: sum.splits prod.splits)

lemma save_page_archive [simp]:
  "all_papers_global (save_page w pg s) = all_papers_global s"
  by (simp add: save_page_def emit_def split: option.splits)

lemma save_page_trace:
  "\<exists>es. trace (save_page w pg s) = trace s @ es \<and> filter is_completed es = []
        \<and> filter is_processing es = []"
  by (simp add: save_page_def emit_def is_completed_def is_processing_def split: option.splits)

lemma save_page_completed [simp]:
  "filter is_completed (trace (save_page w pg s)) = filter is_completed (trace s)"
  using save_page_trace [of w pg s] by auto

lemma pair_up_completed [simp]: "filter is_completed (snd (pair_up pg a b)) = []"
  by (simp add: pair_up_log is_completed_def)

lemma crawl_page_grows:
  "\<exists>new. grows d s (step_state (crawl_page w d mp url pg s)) new"
proof (cases "max_pages_reached mp pg")
  case True
  then have "grows d s (step_state (crawl_page w d mp url pg s)) []"
    by (simp add: crawl_page_def grows_def step_state_def emit_def is_completed_def)
  then show ?thesis by blast
next
  case False
  note nm = False
  show ?thesis
  proof (cases "get_arxiv_soup w url")
    case None
    with nm have "grows d s (step_state (crawl_page w d mp url pg s)) []"
      by (simp add: crawl_page_def grows_def step_state_def emit_def is_completed_def Let_def)
    then show ?thesis by blast
  next
    case (Some list_soup)
    note ls = Some
    show ?thesis
    proof (cases "find list_soup [ascii ''dl''] (attr_is (ascii ''id'') (ascii ''articles''))")
      case None
      with nm ls have "grows d s (step_state (crawl_page w d mp url pg s)) []"
        by (simp add: crawl_page_def grows_def step_state_def emit_def is_completed_def Let_def)
      then show ?thesis by blast
    next
      case (Some dl)
      let ?s1 = "s\<lparr>trace := trace s @ Log INFO (PageStart pg url)
                       # snd (pair_up pg (find_all dl [ascii ''dt''] any_tag)
                                (find_all dl [ascii ''dd''] any_tag))\<rparr>"
      let ?r = "for_items w d (datetime_now w pg) pg
             (min (length (find_all dl [ascii ''dt''] any_tag))
                  (length (find_all dl [ascii ''dd''] any_tag)))
             1 (page_items dl) ?s1"
      from for_items_grows [of d ?s1 w "datetime_now w pg" pg _ 1 "page_items dl"]
      obtain new where g1: "grows d ?s1 (item_state ?r) new" by blast
      have g: "grows d s (item_state ?r) new"
        by (rule grows_before [OF g1]) (simp_all add: is_completed_def)
      note cp = crawl_page_items [OF nm ls Some, of d s]
      show ?thesis
      proof (cases ?r)
        case (Inl es)
        obtain e s2 where es: "es = (e, s2)" by (cases es)
        from Inl es cp have "step_state (crawl_page w d mp url pg s) = item_state ?r"
          by (simp add: step_state_def item_state_def)
        with g show ?thesis by auto
      next
        case (Inr s2)
        from Inr g have g2: "grows d s s2 new" by (simp add: item_state_def)
        show ?thesis
        proof (cases "next_page_url list_soup")
          case None
          with Inr cp have st: "step_state (crawl_page w d mp url pg s)
              = emit (Log INFO NoNextPage) (save_page w pg s2)"
            by (simp add: step_state_def)
          have "grows d s (emit (Log INFO NoNextPage) (save_page w pg s2)) new"
            by (rule grows_after [OF g2]) (simp_all add: emit_def is_completed_def)
          with st show ?thesis by auto
        next
          case (Some u)
          with Inr cp have st: "step_state (crawl_page w d mp url pg s) = save_page w pg s2"
            by (simp add: step_state_def)
          have "grows d s (save_page w pg s2) new"
            by (rule grows_after [OF g2]) simp_all
          with st show ?thesis by auto
        qed
      qed
    qed
  qed
qed

lemma crawl_loop_grows:
  "crawl_loop fuel w d mp url pg s = Some out \<Longrightarrow> \<exists>new. grows d s (final_state out) new"
proof (induction fuel arbitrary: url pg s)
  case 0
  then show ?case by simp
next
  case (Suc fuel)
  from crawl_page_grows [of d s w mp url pg] obtain n1 where
    g1: "grows d s (step_state (crawl_page w d mp url pg s)) n1" by blast
  show ?case
  proof (cases "crawl_page w d mp url pg s")
    case (Stopped s')
    with Suc.prems g1 have "grows d s (final_state out) n1"
      by (auto simp: step_state_def final_state_def)
    then show ?thesis by blast
  next
    case (Raised e s')
    with Suc.prems g1 have "grows d s (final_state out) n1"
      by (auto simp: step_state_def final_state_def)
    then show ?thesis by blast
  next
    case (Continue u s')
    with Suc.prems have "crawl_loop fuel w d mp u (pg + 1) s' = Some out" by simp
    from Suc.IH [OF this] obtain n2 where g2: "grows d s' (final_state out) n2" by blast
    from g1 Continue have "grows d s s' n1" by (simp add: step_state_def)
    from grows_trans [OF this g2] show ?thesis by blast
  qed
qed

lemma crawl_run_grows:
  assumes "load_history file = Inr s0"
    and "crawl_and_process_papers fuel w file url mp = Some out"
  shows "\<exists>new. grows (date_today w)
                 \<lparr>all_papers_global = ensure_date (date_today w) (all_papers_global s0),
                  trace = trace s0\<rparr>
                 (final_state out) new"
proof -
  have "s0\<lparr>all_papers_global := ensure_date (date_today w) (all_papers_global s0)\<rparr>
        = \<lparr>all_papers_global = ensure_date (date_today w) (all_papers_global s0),
           trace = trace s0\<rparr>"
    by simp
  with assms crawl_loop_grows show ?thesis
    by (simp add: crawl_and_process_papers_def Let_def)
qed

lemma load_history_completed:
  "load_history file = Inr s0 \<Longrightarrow> filter is_completed (trace s0) = []"
  by (auto simp: load_history_def is_completed_def split: read_result.splits)

lemma load_history_Parsed:
  "load_history (Parsed A)
     = Inr \<lparr>all_papers_global = A, trace = [Log INFO (LoadedHistory (length A))]\<rparr>"
  by (simp add: load_history_def)

subsection \<open>Merging into the archive\<close>

text \<open>
  C2: a run that loads the archive \<open>A0\<close> leaves an archive that is \<open>A0\<close> (with the bucket
  of today added, empty, when it was not there) with the new entries appended to the
  bucket of today, one for each paper the run reports as completed: the number of entries
  grows by the number of new ones, the bucket of today keeps its entries in front of them,
  every other date keeps its bucket, and the dates keep their order. This holds as well
  when the run is ended by an exception.
\<close>

theorem merge_safety:
  assumes "crawl_and_process_papers fuel w (Parsed A0) url max_pages = Some out"
  shows "\<exists>new.
      all_papers_global (final_state out)
        = extend_bucket (date_today w) new (ensure_date (date_today w) A0)
    \<and> length new = length (filter is_completed (trace (final_state out)))
    \<and> total_papers (all_papers_global (final_state out)) = total_papers A0 + length new
    \<and> bucket (all_papers_global (final_state out)) (date_today w)
        = bucket A0 (date_today w) @ new
    \<and> (\<forall>d. d \<noteq> date_today w
          \<longrightarrow> map_of (all_papers_global (final_state out)) d = map_of A0 d)
    \<and> map fst (all_papers_global (final_state out)) = map fst (ensure_date (date_today w) A0)"
proof -
  from crawl_run_grows [OF load_history_Parsed assms] obtain new where
    g: "grows (date_today w)
          \<lparr>all_papers_global = ensure_date (date_today w) A0,
           trace = [Log INFO (LoadedHistory (length A0))]\<rparr>
          (final_state out) new" by auto
  have a: "all_papers_global (final_state out)
        = extend_bucket (date_today w) new (ensure_date (date_today w) A0)"
    using growsD(1) [OF g] by simp
  have c: "length new = length (filter is_completed (trace (final_state out)))"
    using growsD(2) [OF g] by (simp add: is_completed_def)
  have t: "total_papers (all_papers_global (final_state out)) = total_papers A0 + length new"
    unfolding a using total_extend [OF map_of_ensure_date] by simp
  have b: "bucket (all_papers_global (final_state out)) (date_today w)
        = bucket A0 (date_today w) @ new"
    unfolding a using bucket_extend_same [OF map_of_ensure_date] by simp
  have o: "\<forall>d. d \<noteq> date_today w
          \<longrightarrow> map_of (all_papers_global (final_state out)) d = map_of A0 d"
    unfolding a by (simp add: map_of_extend_other map_of_ensure_other)
  have k: "map fst (all_papers_global (final_state out))
             = map fst (ensure_date (date_today w) A0)"
    unfolding a by simp
  from a c t b o k show ?thesis by blast
qed

subsection \<open>The identifiers of the new entries\<close>

text \<open>
  C10: an item without a link to its HTML page only leaves two lines in the log, whatever
  the world is: nothing is fetched, extracted, summarized or appended. And every entry a
  run appends to the archive it has loaded has an identifier that is not empty and is an
  absolute URL.
\<close>

theorem appended_identifiers_absolute:
  "(titled_link dt (ascii ''View HTML'') = None \<longrightarrow>
      process_item w d t pg n i dt dd s =
        Inr (s\<lparr>trace := trace s @ [Log INFO (Processing pg i n), Log WARNING NoHtmlLink]\<rparr>))
   \<and> (load_history file = Inr s0
        \<and> crawl_and_process_papers fuel w file url max_pages = Some out \<longrightarrow>
        (\<exists>new. all_papers_global (final_state out)
                 = extend_bucket (date_today w) new
                     (ensure_date (date_today w) (all_papers_global s0))
             \<and> (\<forall>p \<in> set new. arxiv_html_link p \<noteq> []
                                \<and> is_absolute_url (arxiv_html_link p))))"
proof (intro conjI impI)
  assume "titled_link dt (ascii ''View HTML'') = None"
  then show "process_item w d t pg n i dt dd s =
        Inr (s\<lparr>trace := trace s @ [Log INFO (Processing pg i n), Log WARNING NoHtmlLink]\<rparr>)"
    by (rule process_item_no_link)
next
  assume h: "load_history file = Inr s0
        \<and> crawl_and_process_papers fuel w file url max_pages = Some out"
  from crawl_run_grows [OF conjunct1 [OF h] conjunct2 [OF h]] obtain new where
    g: "grows (date_today w)
          \<lparr>all_papers_global = ensure_date (date_today w) (all_papers_global s0),
           trace = trace s0\<rparr>
          (final_state out) new" by blast
  have a: "all_papers_global (final_state out)
                 = extend_bucket (date_today w) new
                     (ensure_date (date_today w) (all_papers_global s0))"
    using growsD(1) [OF g] by simp
  have "\<forall>p \<in> set new. is_absolute_url (arxiv_html_link p)"
    using growsD(3) [OF g] by (simp add: list_all_iff)
  then have "\<forall>p \<in> set new. arxiv_html_link p \<noteq> [] \<and> is_absolute_url (arxiv_html_link p)"
    using absolute_url_nonempty by blast
  with a show "\<exists>new. all_papers_global (final_state out)
                 = extend_bucket (date_today w) new
                     (ensure_date (date_today w) (all_papers_global s0))
             \<and> (\<forall>p \<in> set new. arxiv_html_link p \<noteq> []
                                \<and> is_absolute_url (arxiv_html_link p))"
    by blast
qed

end
